theory Spec2Isabelle
  imports Complex_Main
begin

section \<open>Data model\<close>

text \<open>
  The service keeps one \<^verbatim>\<open>EmbeddingModel\<close> instance holding a FAISS index
  (\<^verbatim>\<open>self.index\<close>) and a metadata dictionary (\<^verbatim>\<open>self.metadata\<close>), both written to
  disk by \<^verbatim>\<open>save_index\<close>.

  \<^item> An entry of \<^verbatim>\<open>metadata["faqs"]\<close> is the dictionary
    \<^verbatim>\<open>{"id": ..., "question": ..., "answer": ...}\<close>; \<^verbatim>\<open>answer\<close> may be \<^verbatim>\<open>None\<close>.
  \<^item> \<^verbatim>\<open>metadata["faqs"]\<close> is a Python \<^verbatim>\<open>dict\<close>: keys are unique and iteration follows
    insertion order, which the first-match loops of \<^verbatim>\<open>add_or_update_faq\<close> and
    \<^verbatim>\<open>delete_faq\<close> depend on. It is an association list here, in insertion order.
    The source's keys are the strings \<^verbatim>\<open>str(idx)\<close> and are read back with
    \<^verbatim>\<open>int(idx)\<close>; the key is the integer itself here.
  \<^item> Python integers are unbounded: \<^typ>\<open>int\<close>.
  \<^item> Similarities are the floats FAISS returns; the code only compares them, so they are
    \<^typ>\<open>real\<close> numbers here.
  \<^item> Time stamps (\<^verbatim>\<open>datetime.now().isoformat()\<close>) are strings handed in by the caller.
\<close>

datatype py_error = KeyError | TypeError

record faq =
  faq_id :: int
  question :: string
  answer :: "string option"

type_synonym faqs_dict = "(int \<times> faq) list"

text \<open>\<^verbatim>\<open>d[k] = v\<close> on a Python dict: an existing key keeps its place, a new key goes last.\<close>

fun dict_set :: "('k \<times> 'a) list \<Rightarrow> 'k \<Rightarrow> 'a \<Rightarrow> ('k \<times> 'a) list" where
  "dict_set [] k v = [(k, v)]"
| "dict_set ((k', v') # d) k v =
     (if k' = k then (k', v) # d else (k', v') # dict_set d k v)"

text \<open>\<^verbatim>\<open>d[k]\<close> on a Python dict: a missing key raises \<^verbatim>\<open>KeyError\<close>.\<close>

definition dict_get :: "('k \<times> 'a) list \<Rightarrow> 'k \<Rightarrow> py_error + 'a" where
  "dict_get d k = (case map_of d k of None \<Rightarrow> Inl KeyError | Some v \<Rightarrow> Inr v)"

text \<open>The report of a consistency check (the \<^verbatim>\<open>result\<close> dictionary of \<^verbatim>\<open>check_and_reindex\<close>).\<close>

datatype check_status = Checking | Consistent | Reindexed | Error

record check_result =
  status :: check_status
  faqs_total :: nat
  missing_in_faiss :: "int list"
  orphaned_in_faiss :: "int list"
  error :: "string option"

record stored_check =
  timestamp :: string
  result :: check_result

text \<open>
  \<^verbatim>\<open>self.metadata\<close>: the keys \<^verbatim>\<open>"faqs"\<close>, \<^verbatim>\<open>"last_updated"\<close> and the optional key
  \<^verbatim>\<open>"consistency_check"\<close> (\<open>None\<close> when the key is absent). The key \<^verbatim>\<open>"backups"\<close>, written
  only by the backup endpoint, is left out.
\<close>

record metadata =
  faqs :: faqs_dict
  last_updated :: "string option"
  consistency_check :: "stored_check option"

text \<open>
  The \<^verbatim>\<open>EmbeddingModel\<close> singleton. \<open>index\<close> is the FAISS \<^verbatim>\<open>IndexFlatIP\<close>, seen as the list
  of its stored vectors by position; \<open>disk\<close> is what the last successful \<^verbatim>\<open>save_index\<close>
  wrote to \<^verbatim>\<open>INDEX_PATH\<close> and \<^verbatim>\<open>METADATA_PATH\<close>.
\<close>

record 'v embedding_model =
  index :: "'v list"
  metadata :: metadata
  disk :: "'v list \<times> metadata"

section \<open>The vector index\<close>

text \<open>
  Modelled from the spec: the FAISS library (\<^verbatim>\<open>faiss.IndexFlatIP\<close>) is not part of the
  repository. Section 4.1 of the specification gives its contract: \<^verbatim>\<open>Add\<close> appends at the
  next free position (the current cardinality); \<^verbatim>\<open>RemoveAt\<close> removes the vector at a
  position by shift-left compaction, so the cardinality drops by exactly one and the
  other vectors keep their relative order. A position outside \<open>[0, ntotal)\<close> selects
  nothing. The embedding provider is assumed to return vectors of the index's dimension,
  so \<^verbatim>\<open>Add\<close> does not fail.
\<close>

definition ntotal :: "'v list \<Rightarrow> int" where
  "ntotal ix = int (length ix)"

definition index_add :: "'v list \<Rightarrow> 'v \<Rightarrow> 'v list" where
  "index_add ix v = ix @ [v]"

definition remove_ids :: "'v list \<Rightarrow> int \<Rightarrow> 'v list" where
  "remove_ids ix i =
     (if 0 \<le> i \<and> i < ntotal ix then take (nat i) ix @ drop (Suc (nat i)) ix else ix)"

section \<open>\<^verbatim>\<open>EmbeddingModel\<close>: persistence and CRUD\<close>

definition empty_metadata :: metadata where
  "empty_metadata = \<lparr>faqs = [], last_updated = None, consistency_check = None\<rparr>"

text \<open>
  \<^verbatim>\<open>save_index\<close> stamps \<^verbatim>\<open>last_updated\<close> and writes both files. A failing write is caught
  and logged by the source and changes nothing in memory; the model takes the write to
  succeed.
\<close>

definition save_index :: "string \<Rightarrow> 'v embedding_model \<Rightarrow> 'v embedding_model" where
  "save_index now s =
     (let md = (metadata s)\<lparr>last_updated := Some now\<rparr>
      in s\<lparr>metadata := md, disk := (index s, md)\<rparr>)"

text \<open>\<^verbatim>\<open>load_index\<close> when no index file exists: a new empty index, saved at once.\<close>

definition load_index :: "string \<Rightarrow> 'v embedding_model" where
  "load_index now =
     save_index now \<lparr>index = [], metadata = empty_metadata, disk = ([], empty_metadata)\<rparr>"

text \<open>
  The loop shared by \<^verbatim>\<open>add_or_update_faq\<close> and \<^verbatim>\<open>delete_faq\<close>: the key of the first entry,
  in dictionary order, whose \<^verbatim>\<open>"id"\<close> equals \<open>fid\<close> (\<^verbatim>\<open>break\<close> at the first match).
\<close>

fun find_idx :: "faqs_dict \<Rightarrow> int \<Rightarrow> int option" where
  "find_idx [] fid = None"
| "find_idx ((idx, m) # rest) fid =
     (if faq_id m = fid then Some idx else find_idx rest fid)"

text \<open>
  \<^verbatim>\<open>add_or_update_faq\<close>. \<open>generate_embedding\<close> is the embedding provider, an opaque function of the
  text. The result is the returned position and the new state.
\<close>

definition add_or_update_faq ::
  "(string \<Rightarrow> 'v) \<Rightarrow> string \<Rightarrow> 'v embedding_model \<Rightarrow> int \<Rightarrow> string \<Rightarrow> string option
     \<Rightarrow> int \<times> 'v embedding_model" where
  "add_or_update_faq generate_embedding now s fid q a =
     (let question_embedding = generate_embedding q;
          existing_idx = find_idx (faqs (metadata s)) fid;
          ix1 = (case existing_idx of
                   None \<Rightarrow> index s
                 | Some e \<Rightarrow> remove_ids (index s) e);
          idx = ntotal ix1;
          ix2 = index_add ix1 question_embedding;
          md = (metadata s)\<lparr>faqs :=
                 dict_set (faqs (metadata s)) idx
                   \<lparr>faq_id = fid, question = q, answer = a\<rparr>\<rparr>
      in (idx, save_index now (s\<lparr>index := ix2, metadata := md\<rparr>)))"

text \<open>
  The rebuilding loop of \<^verbatim>\<open>delete_faq\<close>: every entry but the removed one is stored into
  the new dictionary \<open>acc\<close>, under its key lowered by one when it lies above the removed
  position.
\<close>

fun rebuild :: "int \<Rightarrow> faqs_dict \<Rightarrow> faqs_dict \<Rightarrow> faqs_dict" where
  "rebuild r [] acc = acc"
| "rebuild r ((idx, m) # rest) acc =
     (if idx \<noteq> r
      then rebuild r rest (dict_set acc (if idx > r then idx - 1 else idx) m)
      else rebuild r rest acc)"

text \<open>
  \<^verbatim>\<open>delete_faq\<close>. The new metadata dictionary is built from
  \<^verbatim>\<open>{"faqs": {}, "last_updated": None}\<close>, so a stored \<^verbatim>\<open>"consistency_check"\<close> is dropped.
\<close>

definition delete_faq ::
  "string \<Rightarrow> 'v embedding_model \<Rightarrow> int \<Rightarrow> bool \<times> 'v embedding_model" where
  "delete_faq now s fid =
     (case find_idx (faqs (metadata s)) fid of
        Some idx_to_remove \<Rightarrow>
          (True,
           save_index now
             (s\<lparr>index := remove_ids (index s) idx_to_remove,
                metadata := \<lparr>faqs = rebuild idx_to_remove (faqs (metadata s)) [],
                             last_updated = None, consistency_check = None\<rparr>\<rparr>))
      | None \<Rightarrow> (False, s))"

text \<open>\<^verbatim>\<open>save_consistency_result\<close>.\<close>

definition save_consistency_result ::
  "string \<Rightarrow> 'v embedding_model \<Rightarrow> check_result \<Rightarrow> 'v embedding_model" where
  "save_consistency_result now s res =
     save_index now
       (s\<lparr>metadata := (metadata s)\<lparr>consistency_check :=
            Some \<lparr>timestamp = now, result = res\<rparr>\<rparr>\<rparr>)"

section \<open>Search\<close>

text \<open>
  Modelled from the spec: \<^verbatim>\<open>index.search\<close> belongs to the FAISS library, which is not
  part of the repository. By section 4.1 of the specification it returns up to \<open>k\<close>
  nearest neighbours by inner-product similarity, in descending order of score (ties by
  lowest position), and fewer real matches than \<open>k\<close> when the cardinality is below \<open>k\<close>; by
  the comment in \<^verbatim>\<open>search\<close> the library fills the missing places of its \<open>k\<close>-element
  answer with the position \<open>-1\<close>. \<open>ip\<close> is the inner product, an opaque function. The
  answer is the list of pairs \<^verbatim>\<open>(scores[0][i], indices[0][i])\<close>; the score of a filler is
  never read by the source and is \<open>0\<close> here. The specification's interface has
  \<open>top_k \<ge> 1\<close>; what the library does at \<open>k = 0\<close> is outside this model.
\<close>

definition index_search ::
  "('v \<Rightarrow> 'v \<Rightarrow> real) \<Rightarrow> 'v list \<Rightarrow> 'v \<Rightarrow> nat \<Rightarrow> (real \<times> int) list" where
  "index_search ip ix q k =
     (let scored = map (\<lambda>(p, v). (ip q v, int p)) (enumerate 0 ix);
          hits = take k (sort_key (\<lambda>(sc, p). - sc) scored)
      in hits @ replicate (k - length hits) (0, - 1))"

record search_result =
  res_id :: int
  res_question :: string
  res_answer :: "string option"
  similarity :: real

text \<open>
  The loop of \<^verbatim>\<open>search\<close> over the FAISS answer: a filler \<open>-1\<close> is skipped, every other
  position is looked up in \<^verbatim>\<open>metadata["faqs"]\<close> without a guard.
\<close>

fun search_loop ::
  "faqs_dict \<Rightarrow> (real \<times> int) list \<Rightarrow> search_result list \<Rightarrow> py_error + search_result list" where
  "search_loop d [] results = Inr results"
| "search_loop d ((sc, idx) # rest) results =
     (if idx \<noteq> - 1 then
        (case dict_get d idx of
           Inl e \<Rightarrow> Inl e
         | Inr m \<Rightarrow>
             search_loop d rest
               (results @ [\<lparr>res_id = faq_id m, res_question = question m,
                            res_answer = answer m, similarity = sc\<rparr>]))
      else search_loop d rest results)"

definition search ::
  "(string \<Rightarrow> 'v) \<Rightarrow> ('v \<Rightarrow> 'v \<Rightarrow> real) \<Rightarrow> 'v embedding_model \<Rightarrow> string \<Rightarrow> nat
     \<Rightarrow> py_error + search_result list" where
  "search generate_embedding ip s query top_k =
     (let query_embedding = generate_embedding query
      in search_loop (faqs (metadata s)) (index_search ip (index s) query_embedding top_k) [])"

section \<open>The query endpoint\<close>

text \<open>
  \<^verbatim>\<open>QueryInput\<close>. \<^verbatim>\<open>threshold\<close> is \<^verbatim>\<open>Optional[float]\<close>: a request may carry \<^verbatim>\<open>null\<close>.
  \<^verbatim>\<open>top_k\<close> goes to the library unchecked; it is a natural number here.
\<close>

record query_input =
  query_str :: string
  threshold :: "real option"
  top_k :: nat

text \<open>
  The two answers of \<^verbatim>\<open>query\<close>: \<^verbatim>\<open>best_match\<close> with question, answer and similarity, or
  \<^verbatim>\<open>alternatives\<close>, a list of (id, question, similarity) without the answer.
\<close>

datatype query_response =
  BestMatch string "string option" real
| Alternatives "(int \<times> string \<times> real) list"

text \<open>
  \<^verbatim>\<open>[r for r in results if r["similarity"] >= input_data.threshold]\<close>. Comparing a float
  with \<^verbatim>\<open>None\<close> raises \<^verbatim>\<open>TypeError\<close>; with no result nothing is compared.
\<close>

definition filter_results :: "real option \<Rightarrow> search_result list \<Rightarrow> py_error + search_result list" where
  "filter_results thr results =
     (case thr of
        Some t \<Rightarrow> Inr [r \<leftarrow> results. similarity r \<ge> t]
      | None \<Rightarrow> (if results = [] then Inr [] else Inl TypeError))"

text \<open>
  The rest of \<^verbatim>\<open>query\<close>, after the filter. \<open>hc\<close> is \<^verbatim>\<open>HIGH_CONFIDENCE_THRESHOLD\<close>, read from
  the environment at start-up (default 0.8).
\<close>

definition classify :: "real \<Rightarrow> search_result list \<Rightarrow> query_response" where
  "classify hc filtered_results =
     (let best_match = (case filtered_results of [] \<Rightarrow> None | r # _ \<Rightarrow> Some r);
          alternative_questions =
            map (\<lambda>r. (res_id r, res_question r, similarity r)) filtered_results
      in case best_match of
           Some b \<Rightarrow>
             (if similarity b > hc
              then BestMatch (res_question b) (res_answer b) (similarity b)
              else Alternatives alternative_questions)
         | None \<Rightarrow> Alternatives alternative_questions)"

definition query ::
  "real \<Rightarrow> (string \<Rightarrow> 'v) \<Rightarrow> ('v \<Rightarrow> 'v \<Rightarrow> real) \<Rightarrow> 'v embedding_model \<Rightarrow> query_input
     \<Rightarrow> py_error + query_response" where
  "query hc generate_embedding ip s input_data =
     (case search generate_embedding ip s (query_str input_data) (top_k input_data) of
        Inl e \<Rightarrow> Inl e
      | Inr results \<Rightarrow>
          (case filter_results (threshold input_data) results of
             Inl e \<Rightarrow> Inl e
           | Inr filtered_results \<Rightarrow> Inr (classify hc filtered_results)))"

section \<open>The consistency check\<close>

text \<open>
  What \<^verbatim>\<open>httpx.get\<close> and \<^verbatim>\<open>response.json()\<close> give: the call raises (network error,
  timeout) with a message, or a response arrives with its status code and a body that
  either fails to parse (with a message) or is the list of the authoritative records,
  each with \<^verbatim>\<open>id\<close>, \<^verbatim>\<open>question\<close> and \<^verbatim>\<open>answer\<close>.
\<close>

datatype fetch_outcome =
  Raised string
| Response int "string + faq list"

definition initial_result :: check_result where
  "initial_result =
     \<lparr>status = Checking, faqs_total = 0, missing_in_faiss = [], orphaned_in_faiss = [],
      error = None\<rparr>"

text \<open>
  The ids held by the index: the loop of \<^verbatim>\<open>perform_check\<close> that collects
  \<^verbatim>\<open>metadata["faqs"][idx]["id"]\<close> into the set \<^verbatim>\<open>faiss_faq_ids\<close>.
\<close>

definition faiss_faq_ids :: "faqs_dict \<Rightarrow> int set" where
  "faiss_faq_ids d = set (map (\<lambda>(idx, m). faq_id m) d)"

text \<open>The loop adding the missing records, in the order of the authoritative list.\<close>

fun add_missing ::
  "(string \<Rightarrow> 'v) \<Rightarrow> string \<Rightarrow> int set \<Rightarrow> faq list \<Rightarrow> 'v embedding_model \<Rightarrow> 'v embedding_model" where
  "add_missing generate_embedding now missing [] s = s"
| "add_missing generate_embedding now missing (f # rest) s =
     (if faq_id f \<in> missing
      then add_missing generate_embedding now missing rest
             (snd (add_or_update_faq generate_embedding now s (faq_id f) (question f) (answer f)))
      else add_missing generate_embedding now missing rest s)"

text \<open>The loop deleting the orphaned ids, in the iteration order of the set.\<close>

fun remove_orphaned :: "string \<Rightarrow> int list \<Rightarrow> 'v embedding_model \<Rightarrow> 'v embedding_model" where
  "remove_orphaned now [] s = s"
| "remove_orphaned now (fid # rest) s = remove_orphaned now rest (snd (delete_faq now s fid))"

text \<open>
  \<^verbatim>\<open>perform_check\<close>, the background task of \<^verbatim>\<open>check_and_reindex\<close>. It returns the new
  state and the final value of the local \<^verbatim>\<open>result\<close> dictionary. \<open>set_iter\<close> is the order in
  which Python iterates over a set of ids (\<^verbatim>\<open>list(missing_in_faiss)\<close>,
  \<^verbatim>\<open>for faq_id in orphaned_in_faiss\<close>). All saves of one run get the same time stamp.
\<close>

definition perform_check ::
  "(int set \<Rightarrow> int list) \<Rightarrow> (string \<Rightarrow> 'v) \<Rightarrow> string \<Rightarrow> fetch_outcome \<Rightarrow> 'v embedding_model
     \<Rightarrow> 'v embedding_model \<times> check_result" where
  "perform_check set_iter generate_embedding now fetch s =
     (case fetch of
        Raised e \<Rightarrow> (s, initial_result\<lparr>status := Error, error := Some e\<rparr>)
      | Response status_code body \<Rightarrow>
          (if status_code \<noteq> 200 then (s, initial_result)
           else
             (case body of
                Inl e \<Rightarrow> (s, initial_result\<lparr>status := Error, error := Some e\<rparr>)
              | Inr postgres_faqs \<Rightarrow>
                  (let postgres_faq_ids = set (map faq_id postgres_faqs);
                       missing = postgres_faq_ids - faiss_faq_ids (faqs (metadata s));
                       orphaned = faiss_faq_ids (faqs (metadata s)) - postgres_faq_ids;
                       res = initial_result
                               \<lparr>faqs_total := length postgres_faqs,
                                missing_in_faiss := set_iter missing,
                                orphaned_in_faiss := set_iter orphaned\<rparr>;
                       s1 = (if missing \<noteq> {}
                             then add_missing generate_embedding now missing postgres_faqs s
                             else s);
                       s2 = (if orphaned \<noteq> {}
                             then remove_orphaned now (set_iter orphaned) s1
                             else s1)
                   in (s2,
                       res\<lparr>status := (if missing \<noteq> {} \<or> orphaned \<noteq> {}
                                      then Reindexed else Consistent)\<rparr>)))))"

text \<open>
  \<^verbatim>\<open>check_and_reindex\<close> answers "processing" at once and leaves \<^verbatim>\<open>perform_check\<close> to run
  in the background; \<^verbatim>\<open>result\<close> is a local of the request. This is the state of the
  service once the task has completed.
\<close>

definition check_and_reindex ::
  "(int set \<Rightarrow> int list) \<Rightarrow> (string \<Rightarrow> 'v) \<Rightarrow> string \<Rightarrow> fetch_outcome \<Rightarrow> 'v embedding_model
     \<Rightarrow> 'v embedding_model" where
  "check_and_reindex set_iter generate_embedding now fetch s =
     fst (perform_check set_iter generate_embedding now fetch s)"

datatype status_response = StoredCheck stored_check | NeverRun

definition get_consistency_status :: "'v embedding_model \<Rightarrow> status_response" where
  "get_consistency_status s =
     (case consistency_check (metadata s) of
        Some c \<Rightarrow> StoredCheck c
      | None \<Rightarrow> NeverRun)"

section \<open>Reachable states\<close>

text \<open>
  The states the service reaches from an empty index by \<^verbatim>\<open>add_or_update_faq\<close> and
  \<^verbatim>\<open>delete_faq\<close> calls, each at its own time.
\<close>

inductive reachable :: "(string \<Rightarrow> 'v) \<Rightarrow> 'v embedding_model \<Rightarrow> bool"
  for generate_embedding :: "string \<Rightarrow> 'v" where
  start: "reachable generate_embedding (load_index now)"
| create_or_update:
    "reachable generate_embedding s \<Longrightarrow>
     reachable generate_embedding (snd (add_or_update_faq generate_embedding now s fid q a))"
| delete:
    "reachable generate_embedding s \<Longrightarrow>
     reachable generate_embedding (snd (delete_faq now s fid))"

section \<open>Notions used to state the properties\<close>

text \<open>
  The renumbering the specification gives for a deletion at position \<open>r\<close>: every position
  greater than \<open>r\<close> moves down by one, the record stays the same.
\<close>

definition renumber :: "int \<Rightarrow> int \<times> faq \<Rightarrow> int \<times> faq" where
  "renumber r = (\<lambda>(idx, m). (if idx > r then idx - 1 else idx, m))"

text \<open>
  The real matches in an answer of \<^verbatim>\<open>index.search\<close>: its entries other than the fillers
  with position \<open>-1\<close>.
\<close>

definition real_hits :: "(real \<times> int) list \<Rightarrow> (real \<times> int) list" where
  "real_hits raw = [x \<leftarrow> raw. snd x \<noteq> - 1]"

text \<open>
  A search result \<open>r\<close> is the join of the FAISS hit \<open>x\<close> (score and position) with the
  metadata: the dictionary has an entry at the position of \<open>x\<close>, and \<open>r\<close> carries the id,
  question and answer of that entry and the score of \<open>x\<close>.
\<close>

definition joined :: "faqs_dict \<Rightarrow> search_result \<Rightarrow> real \<times> int \<Rightarrow> bool" where
  "joined d r x \<longleftrightarrow>
     (\<exists>m. map_of d (snd x) = Some m \<and>
          r = \<lparr>res_id = faq_id m, res_question = question m, res_answer = answer m,
               similarity = fst x\<rparr>)"

text \<open>
  The density of the position map: the keys of \<^verbatim>\<open>metadata["faqs"]\<close> are pairwise
  different and are exactly the positions \<open>0, \<dots>, ntotal - 1\<close> of the index.
\<close>

definition dense :: "'v embedding_model \<Rightarrow> bool" where
  "dense s \<longleftrightarrow>
     distinct (map fst (faqs (metadata s))) \<and>
     set (map fst (faqs (metadata s))) = {0..<ntotal (index s)}"

text \<open>
  Every domain id sits at one position at most: the ids of the entries of
  \<^verbatim>\<open>metadata["faqs"]\<close> are pairwise different.
\<close>

definition unique_ids :: "'v embedding_model \<Rightarrow> bool" where
  "unique_ids s \<longleftrightarrow> distinct (map (\<lambda>(idx, m). faq_id m) (faqs (metadata s)))"

text \<open>
  \<^verbatim>\<open>list(S)\<close> and \<^verbatim>\<open>for x in S\<close> on a Python set enumerate the elements of \<open>S\<close>, each once,
  in an order the language leaves open. The consistency check takes the enumeration as a
  parameter; \<open>iterates\<close> says that the parameter is such an enumeration.
\<close>

definition iterates :: "(int set \<Rightarrow> int list) \<Rightarrow> bool" where
  "iterates set_iter \<longleftrightarrow> (\<forall>S. finite S \<longrightarrow> set (set_iter S) = S \<and> distinct (set_iter S))"

text \<open>
  States used as concrete inputs. The embedding provider of the examples returns the
  question text itself, so the vector list shows which question sits at which position.
\<close>

definition example_faq :: "int \<Rightarrow> string \<Rightarrow> faq" where
  "example_faq i q = \<lparr>faq_id = i, question = q, answer = Some ''answer''\<rparr>"

definition state_10_20_30_40 :: "string embedding_model" where
  "state_10_20_30_40 =
     (let md = \<lparr>faqs = [(0, example_faq 10 ''ten''), (1, example_faq 20 ''twenty''),
                        (2, example_faq 30 ''thirty''), (3, example_faq 40 ''forty'')],
                last_updated = Some ''day 1'', consistency_check = None\<rparr>;
          ix = [''ten'', ''twenty'', ''thirty'', ''forty'']
      in \<lparr>index = ix, metadata = md, disk = (ix, md)\<rparr>)"

text \<open>
  An inner product for the examples: the score of a stored vector against any query is
  read off the stored text.
\<close>

definition example_ip :: "string \<Rightarrow> string \<Rightarrow> real" where
  "example_ip q v =
     (if v = ''ten'' then 0.8 else if v = ''twenty'' then 0.6
      else if v = ''thirty'' then 0.5 else 0.3)"

text \<open>The three best hits of a query against \<open>state_10_20_30_40\<close> under \<open>example_ip\<close>.\<close>

definition hit_ten :: search_result where
  "hit_ten = \<lparr>res_id = 10, res_question = ''ten'', res_answer = Some ''answer'', similarity = 0.8\<rparr>"

definition hit_twenty :: search_result where
  "hit_twenty = \<lparr>res_id = 20, res_question = ''twenty'', res_answer = Some ''answer'', similarity = 0.6\<rparr>"

definition hit_thirty :: search_result where
  "hit_thirty = \<lparr>res_id = 30, res_question = ''thirty'', res_answer = Some ''answer'', similarity = 0.5\<rparr>"

text \<open>
  A state whose metadata has lost the entry of position 1 while the index still holds
  four vectors (not reachable by the operations above; a damaged metadata file).
\<close>

definition state_gap :: "string embedding_model" where
  "state_gap =
     state_10_20_30_40\<lparr>metadata := (metadata state_10_20_30_40)
        \<lparr>faqs := [(0, example_faq 10 ''ten''), (2, example_faq 30 ''thirty''),
                  (3, example_faq 40 ''forty'')]\<rparr>\<rparr>"

text \<open>
  The reconciliation example: the index holds the ids 2, 3 and 4, the authoritative source
  the ids 1, 2 and 3.
\<close>

definition state_2_3_4 :: "string embedding_model" where
  "state_2_3_4 =
     (let md = \<lparr>faqs = [(0, example_faq 2 ''two''), (1, example_faq 3 ''three''),
                        (2, example_faq 4 ''four'')],
                last_updated = Some ''day 1'', consistency_check = None\<rparr>;
          ix = [''two'', ''three'', ''four'']
      in \<lparr>index = ix, metadata = md, disk = (ix, md)\<rparr>)"

definition authoritative_1_2_3 :: "faq list" where
  "authoritative_1_2_3 = [example_faq 1 ''one'', example_faq 2 ''two'', example_faq 3 ''three'']"

section \<open>Dictionaries and the rebuilding loop\<close>

lemma find_idx_None_iff: "find_idx d fid = None \<longleftrightarrow> fid \<notin> faiss_faq_ids d"
  by (induction d fid rule: find_idx.induct) (auto simp: faiss_faq_ids_def)

lemma find_idx_Some_mem:
  "find_idx d fid = Some p \<Longrightarrow> \<exists>m. (p, m) \<in> set d \<and> faq_id m = fid"
  by (induction d) (auto split: if_splits)

lemma dict_set_fresh: "k \<notin> fst ` set d \<Longrightarrow> dict_set d k v = d @ [(k, v)]"
  by (induction d) auto

lemma keys_dict_set_present:
  "k \<in> fst ` set d \<Longrightarrow> map fst (dict_set d k v) = map fst d"
  by (induction d) force+

lemma renumber_inj:
  "fst e \<noteq> r \<Longrightarrow> fst e' \<noteq> r \<Longrightarrow> fst (renumber r e) = fst (renumber r e') \<Longrightarrow> fst e = fst e'"
  by (cases e; cases e') (auto simp: renumber_def split: if_splits)

text \<open>
  With unique keys, as in any Python dict, no two surviving entries are stored under the
  same new key, so the loop appends the renumbered entries in their old order.
\<close>

lemma rebuild_append:
  "distinct (map fst d) \<Longrightarrow>
   \<forall>e \<in> set d. fst e \<noteq> r \<longrightarrow> fst (renumber r e) \<notin> fst ` set acc \<Longrightarrow>
   rebuild r d acc = acc @ map (renumber r) [e \<leftarrow> d. fst e \<noteq> r]"
proof (induction d arbitrary: acc)
  case Nil
  then show ?case by simp
next
  case (Cons x d)
  obtain idx m where x: "x = (idx, m)" by (cases x)
  show ?case
  proof (cases "idx = r")
    case True
    with Cons x show ?thesis by simp
  next
    case False
    let ?k = "if idx > r then idx - 1 else idx"
    have fresh: "?k \<notin> fst ` set acc"
      using Cons.prems(2) False x by (auto simp: renumber_def)
    have step: "dict_set acc ?k m = acc @ [(?k, m)]"
      using fresh by (rule dict_set_fresh)
    have d: "distinct (map fst d)" using Cons.prems(1) by simp
    have nin: "idx \<notin> fst ` set d" using Cons.prems(1) x by simp
    have inv: "\<forall>e \<in> set d. fst e \<noteq> r \<longrightarrow> fst (renumber r e) \<notin> fst ` set (acc @ [(?k, m)])"
    proof (intro ballI impI)
      fix e assume e: "e \<in> set d" "fst e \<noteq> r"
      have a: "fst (renumber r e) \<notin> fst ` set acc" using Cons.prems(2) e by simp
      have "fst e \<noteq> idx" using nin e by force
      then have "fst (renumber r e) \<noteq> fst (renumber r (idx, m))"
        using renumber_inj [of e r "(idx, m)"] e False by auto
      then have b: "fst (renumber r e) \<noteq> ?k" by (simp add: renumber_def)
      show "fst (renumber r e) \<notin> fst ` set (acc @ [(?k, m)])"
        using a b by auto
    qed
    have "rebuild r (x # d) acc = rebuild r d (acc @ [(?k, m)])"
      using False x step by simp
    also have "\<dots> = (acc @ [(?k, m)]) @ map (renumber r) [e \<leftarrow> d. fst e \<noteq> r]"
      using Cons.IH [OF d inv] .
    finally show ?thesis using False x by (simp add: renumber_def)
  qed
qed

lemma rebuild_eq:
  "distinct (map fst d) \<Longrightarrow> rebuild r d [] = map (renumber r) [e \<leftarrow> d. fst e \<noteq> r]"
  using rebuild_append [of d r "[]"] by simp

section \<open>Deleting a record\<close>

lemma delete_known:
  assumes f: "find_idx (faqs (metadata s)) fid = Some p"
    and d: "distinct (map fst (faqs (metadata s)))"
  shows "fst (delete_faq now s fid) = True"
    and "index (snd (delete_faq now s fid)) = remove_ids (index s) p"
    and "faqs (metadata (snd (delete_faq now s fid))) =
           map (renumber p) [e \<leftarrow> faqs (metadata s). fst e \<noteq> p]"
  using f rebuild_eq [OF d, of p] by (simp_all add: delete_faq_def save_index_def Let_def)

text \<open>
  Claim C10. \<^verbatim>\<open>delete_faq\<close> on an id that no entry of the metadata carries returns
  \<^verbatim>\<open>False\<close> and hands back the very same state: the vector list, the whole metadata
  dictionary (entries, \<^verbatim>\<open>last_updated\<close>, stored check) and the files on disk are all
  unchanged, so no vector is removed, no position renumbered and nothing saved.
\<close>

theorem delete_unknown_is_noop:
  "fid \<notin> faiss_faq_ids (faqs (metadata s)) \<Longrightarrow> delete_faq now s fid = (False, s)"
  by (simp add: delete_faq_def find_idx_None_iff [symmetric])

theorem delete_unknown_is_noop_witness:
  "35 \<notin> faiss_faq_ids (faqs (metadata state_10_20_30_40)) \<and>
   delete_faq ''day 2'' state_10_20_30_40 35 = (False, state_10_20_30_40)"
proof -
  have h: "35 \<notin> faiss_faq_ids (faqs (metadata state_10_20_30_40))"
    by (simp add: faiss_faq_ids_def state_10_20_30_40_def example_faq_def Let_def)
  show ?thesis using h delete_unknown_is_noop [OF h, of "''day 2''"] by simp
qed

text \<open>
  Claim C3. \<^verbatim>\<open>delete_faq\<close> returns \<^verbatim>\<open>False\<close> when no entry carries the id. Otherwise, with
  \<open>p\<close> the position found for the id (the keys of a dict being unique), it returns
  \<^verbatim>\<open>True\<close>, the vector at \<open>p\<close> is removed from the index, and the new dictionary is the
  old one without the entry at \<open>p\<close>, in the old order, every key above \<open>p\<close> lowered by one
  and every record unchanged. From positions 0, 1, 2, 3 holding the ids 10, 20, 30, 40,
  deleting id 30 leaves positions 0, 1, 2 holding 10, 20, 40.
\<close>

theorem delete_faq_renumbers:
  "(fid \<notin> faiss_faq_ids (faqs (metadata s)) \<longrightarrow> fst (delete_faq now s fid) = False) \<and>
   (\<forall>p. find_idx (faqs (metadata s)) fid = Some p \<and> distinct (map fst (faqs (metadata s))) \<longrightarrow>
      (\<exists>m. (p, m) \<in> set (faqs (metadata s)) \<and> faq_id m = fid) \<and>
      fst (delete_faq now s fid) = True \<and>
      index (snd (delete_faq now s fid)) = remove_ids (index s) p \<and>
      (0 \<le> p \<and> p < ntotal (index s) \<longrightarrow>
         index (snd (delete_faq now s fid)) =
           take (nat p) (index s) @ drop (Suc (nat p)) (index s)) \<and>
      faqs (metadata (snd (delete_faq now s fid))) =
        map (\<lambda>(idx, m). (if idx > p then idx - 1 else idx, m))
          [e \<leftarrow> faqs (metadata s). fst e \<noteq> p]) \<and>
   (let s4 = \<lparr>index = [va, vb, vc, vd],
              metadata = \<lparr>faqs = [(0, \<lparr>faq_id = 10, question = qa, answer = aa\<rparr>),
                                  (1, \<lparr>faq_id = 20, question = qb, answer = ab\<rparr>),
                                  (2, \<lparr>faq_id = 30, question = qc, answer = ac\<rparr>),
                                  (3, \<lparr>faq_id = 40, question = qd, answer = ad\<rparr>)],
                          last_updated = lu, consistency_check = cc\<rparr>,
              disk = dk\<rparr>
    in fst (delete_faq now s4 30) = True \<and>
       index (snd (delete_faq now s4 30)) = [va, vb, vd] \<and>
       faqs (metadata (snd (delete_faq now s4 30))) =
         [(0, \<lparr>faq_id = 10, question = qa, answer = aa\<rparr>),
          (1, \<lparr>faq_id = 20, question = qb, answer = ab\<rparr>),
          (2, \<lparr>faq_id = 40, question = qd, answer = ad\<rparr>)])"
proof (intro conjI allI impI)
  assume "fid \<notin> faiss_faq_ids (faqs (metadata s))"
  then show "fst (delete_faq now s fid) = False"
    by (simp add: delete_faq_def find_idx_None_iff [symmetric])
next
  fix p
  assume a: "find_idx (faqs (metadata s)) fid = Some p \<and> distinct (map fst (faqs (metadata s)))"
  then show "\<exists>m. (p, m) \<in> set (faqs (metadata s)) \<and> faq_id m = fid"
    by (simp add: find_idx_Some_mem)
  from a show "fst (delete_faq now s fid) = True" by (simp add: delete_known(1))
  from a show ix: "index (snd (delete_faq now s fid)) = remove_ids (index s) p"
    by (simp add: delete_known(2))
  from a show "faqs (metadata (snd (delete_faq now s fid))) =
        map (\<lambda>(idx, m). (if idx > p then idx - 1 else idx, m))
          [e \<leftarrow> faqs (metadata s). fst e \<noteq> p]"
    using delete_known(3) [of s fid p now] by (simp add: renumber_def)
  assume "0 \<le> p \<and> p < ntotal (index s)"
  then show "index (snd (delete_faq now s fid)) =
      take (nat p) (index s) @ drop (Suc (nat p)) (index s)"
    using ix by (simp add: remove_ids_def)
next
  show "let s4 = \<lparr>index = [va, vb, vc, vd],
              metadata = \<lparr>faqs = [(0, \<lparr>faq_id = 10, question = qa, answer = aa\<rparr>),
                                  (1, \<lparr>faq_id = 20, question = qb, answer = ab\<rparr>),
                                  (2, \<lparr>faq_id = 30, question = qc, answer = ac\<rparr>),
                                  (3, \<lparr>faq_id = 40, question = qd, answer = ad\<rparr>)],
                          last_updated = lu, consistency_check = cc\<rparr>,
              disk = dk\<rparr>
    in fst (delete_faq now s4 30) = True \<and>
       index (snd (delete_faq now s4 30)) = [va, vb, vd] \<and>
       faqs (metadata (snd (delete_faq now s4 30))) =
         [(0, \<lparr>faq_id = 10, question = qa, answer = aa\<rparr>),
          (1, \<lparr>faq_id = 20, question = qb, answer = ab\<rparr>),
          (2, \<lparr>faq_id = 40, question = qd, answer = ad\<rparr>)]"
    by (simp add: delete_faq_def save_index_def remove_ids_def ntotal_def Let_def)
qed

theorem delete_faq_renumbers_witness:
  "35 \<notin> faiss_faq_ids (faqs (metadata state_10_20_30_40)) \<and>
   fst (delete_faq ''day 2'' state_10_20_30_40 35) = False \<and>
   find_idx (faqs (metadata state_10_20_30_40)) 30 = Some 2 \<and>
   distinct (map fst (faqs (metadata state_10_20_30_40))) \<and>
   2 < ntotal (index state_10_20_30_40) \<and>
   fst (delete_faq ''day 2'' state_10_20_30_40 30) = True \<and>
   index (snd (delete_faq ''day 2'' state_10_20_30_40 30)) = [''ten'', ''twenty'', ''forty''] \<and>
   faqs (metadata (snd (delete_faq ''day 2'' state_10_20_30_40 30))) =
     [(0, example_faq 10 ''ten''), (1, example_faq 20 ''twenty''), (2, example_faq 40 ''forty'')]"
proof -
  have h1: "35 \<notin> faiss_faq_ids (faqs (metadata state_10_20_30_40))"
    by (simp add: faiss_faq_ids_def state_10_20_30_40_def example_faq_def Let_def)
  have h2: "find_idx (faqs (metadata state_10_20_30_40)) 30 = Some 2 \<and>
            distinct (map fst (faqs (metadata state_10_20_30_40)))"
    by (simp add: state_10_20_30_40_def example_faq_def Let_def)
  have h3: "(0::int) \<le> 2 \<and> 2 < ntotal (index state_10_20_30_40)"
    by (simp add: state_10_20_30_40_def ntotal_def Let_def)
  note t = delete_faq_renumbers [of 35 state_10_20_30_40 "''day 2''",
      THEN conjunct1, rule_format, OF h1]
  note u = delete_faq_renumbers [of 30 state_10_20_30_40 "''day 2''",
      THEN conjunct2, THEN conjunct1, rule_format, OF h2]
  have c1: "fst (delete_faq ''day 2'' state_10_20_30_40 35) = False"
    by (rule t)
  have c2: "fst (delete_faq ''day 2'' state_10_20_30_40 30) = True"
    using u by simp
  have c3: "index (snd (delete_faq ''day 2'' state_10_20_30_40 30)) =
      take (nat 2) (index state_10_20_30_40) @ drop (Suc (nat 2)) (index state_10_20_30_40)"
    using u h3 by blast
  have c4: "faqs (metadata (snd (delete_faq ''day 2'' state_10_20_30_40 30))) =
      map (\<lambda>(idx, m). (if idx > 2 then idx - 1 else idx, m))
        [e \<leftarrow> faqs (metadata state_10_20_30_40). fst e \<noteq> 2]"
    using u by simp
  have e3: "take (nat 2) (index state_10_20_30_40) @ drop (Suc (nat 2)) (index state_10_20_30_40)
      = [''ten'', ''twenty'', ''forty'']"
    by (simp add: state_10_20_30_40_def Let_def)
  have e4: "map (\<lambda>(idx, m). (if idx > 2 then idx - 1 else idx, m))
        [e \<leftarrow> faqs (metadata state_10_20_30_40). fst e \<noteq> 2] =
      [(0, example_faq 10 ''ten''), (1, example_faq 20 ''twenty''), (2, example_faq 40 ''forty'')]"
    by (simp add: state_10_20_30_40_def Let_def)
  show ?thesis using h1 h2 h3 c1 c2 c3 c4 e3 e4 by simp
qed

section \<open>The position map stays dense\<close>

lemma length_remove_ids:
  "0 \<le> i \<Longrightarrow> i < ntotal ix \<Longrightarrow> ntotal (remove_ids ix i) = ntotal ix - 1"
  by (auto simp: remove_ids_def ntotal_def)

lemma find_idx_key: "find_idx d fid = Some p \<Longrightarrow> p \<in> fst ` set d"
  using find_idx_Some_mem [of d fid p] by force

lemma add_or_update_new:
  assumes "find_idx (faqs (metadata s)) fid = None"
  shows "index (snd (add_or_update_faq g now s fid q a)) = index s @ [g q]"
    and "faqs (metadata (snd (add_or_update_faq g now s fid q a))) =
           dict_set (faqs (metadata s)) (ntotal (index s))
             \<lparr>faq_id = fid, question = q, answer = a\<rparr>"
  using assms by (simp_all add: add_or_update_faq_def save_index_def index_add_def Let_def)

text \<open>
  The update path: the old vector is removed and the new one appended, but the
  dictionary is only written at the new top position; no key is renumbered.
\<close>

lemma add_or_update_existing:
  assumes "find_idx (faqs (metadata s)) fid = Some e"
  shows "index (snd (add_or_update_faq g now s fid q a)) = remove_ids (index s) e @ [g q]"
    and "faqs (metadata (snd (add_or_update_faq g now s fid q a))) =
           dict_set (faqs (metadata s)) (ntotal (remove_ids (index s) e))
             \<lparr>faq_id = fid, question = q, answer = a\<rparr>"
  using assms by (simp_all add: add_or_update_faq_def save_index_def index_add_def Let_def)

lemma dense_add_or_update:
  assumes "dense s"
  shows "dense (snd (add_or_update_faq g now s fid q a))"
proof (cases "find_idx (faqs (metadata s)) fid")
  case None
  let ?n = "ntotal (index s)"
  have keys: "set (map fst (faqs (metadata s))) = {0..<?n}"
    and dist: "distinct (map fst (faqs (metadata s)))"
    using assms by (simp_all add: dense_def)
  have fresh: "?n \<notin> fst ` set (faqs (metadata s))" using keys by auto
  show ?thesis
    unfolding dense_def add_or_update_new [OF None] dict_set_fresh [OF fresh]
    using keys dist fresh by (auto simp: ntotal_def)
next
  case (Some e)
  let ?n = "ntotal (index s)"
  have keys: "set (map fst (faqs (metadata s))) = {0..<?n}"
    and dist: "distinct (map fst (faqs (metadata s)))"
    using assms by (simp_all add: dense_def)
  have e: "0 \<le> e" "e < ?n" using find_idx_key [OF Some] keys by auto
  have len: "ntotal (remove_ids (index s) e) = ?n - 1" using e by (rule length_remove_ids)
  have top: "?n - 1 \<in> fst ` set (faqs (metadata s))" using keys e by auto
  have k: "map fst (dict_set (faqs (metadata s)) (?n - 1)
              \<lparr>faq_id = fid, question = q, answer = a\<rparr>)
      = map fst (faqs (metadata s))"
    using top by (rule keys_dict_set_present)
  have n: "ntotal (remove_ids (index s) e @ [g q]) = ?n"
    using len by (simp add: ntotal_def)
  show ?thesis
    unfolding dense_def add_or_update_existing [OF Some] len k n
    using keys dist by simp
qed

lemma renumber_keys:
  fixes r n :: int
  assumes "0 \<le> r" "r < n"
  shows "(\<lambda>k. if k > r then k - 1 else k) ` ({0..<n} - {r}) = {0..<n - 1}" (is "?f ` _ = _")
proof (intro equalityI subsetI)
  fix x assume "x \<in> ?f ` ({0..<n} - {r})"
  then show "x \<in> {0..<n - 1}" using assms by (auto split: if_splits)
next
  fix x :: int assume x: "x \<in> {0..<n - 1}"
  show "x \<in> ?f ` ({0..<n} - {r})"
  proof (cases "x < r")
    case True
    then have "x = ?f x" "x \<in> {0..<n} - {r}" using x by auto
    then show ?thesis by (rule image_eqI)
  next
    case False
    then have "x = ?f (x + 1)" "x + 1 \<in> {0..<n} - {r}" using x by auto
    then show ?thesis by (rule image_eqI)
  qed
qed

lemma fst_renumber: "fst (renumber r e) = (if fst e > r then fst e - 1 else fst e)"
  by (cases e) (simp add: renumber_def)

lemma dense_delete:
  assumes "dense s"
  shows "dense (snd (delete_faq now s fid))"
proof (cases "find_idx (faqs (metadata s)) fid")
  case None
  then show ?thesis using assms by (simp add: delete_faq_def)
next
  case (Some r)
  let ?n = "ntotal (index s)" and ?d = "faqs (metadata s)"
  have keys: "set (map fst ?d) = {0..<?n}" and dist: "distinct (map fst ?d)"
    using assms by (simp_all add: dense_def)
  have r: "0 \<le> r" "r < ?n" using find_idx_key [OF Some] keys by auto
  have len: "ntotal (remove_ids (index s) r) = ?n - 1" using r by (rule length_remove_ids)
  let ?d' = "map (renumber r) [e \<leftarrow> ?d. fst e \<noteq> r]"
  have k: "map fst ?d' = map (\<lambda>k. if k > r then k - 1 else k) [k \<leftarrow> map fst ?d. k \<noteq> r]"
    by (simp add: filter_map comp_def fst_renumber)
  have "set (map fst ?d') = (\<lambda>k. if k > r then k - 1 else k) ` (set (map fst ?d) - {r})"
    unfolding k by auto
  then have s1: "set (map fst ?d') = {0..<?n - 1}"
    using keys renumber_keys [OF r] by simp
  have inj: "inj_on (\<lambda>k. if k > r then k - 1 else k) (set [k \<leftarrow> map fst ?d. k \<noteq> r])"
    by (rule inj_onI) (auto split: if_splits)
  have d1: "distinct (map fst ?d')"
    unfolding k using dist inj by (simp add: distinct_map)
  show ?thesis
    unfolding dense_def delete_known(2,3) [OF Some dist] len
    using s1 d1 by simp
qed

lemma dense_load_index: "dense (load_index now)"
  by (simp add: dense_def load_index_def save_index_def empty_metadata_def ntotal_def Let_def)

text \<open>
  The part of the invariant that does hold in every reachable state: the keys of the
  dictionary are exactly the positions of the index.
\<close>

lemma reachable_dense: "reachable g s \<Longrightarrow> dense s"
  by (induction rule: reachable.induct)
     (simp_all add: dense_load_index dense_add_or_update dense_delete)

section \<open>Updating a record that is not the last one\<close>

lemma reachable_three_steps:
  "reachable g (snd (add_or_update_faq g t3
       (snd (add_or_update_faq g t2
          (snd (add_or_update_faq g t1 (load_index t0) i1 q1 a1)) i2 q2 a2)) i3 q3 a3))"
  by (intro reachable.create_or_update reachable.start)

text \<open>
  Claim C1, at a failing input. From the empty index, creating id 10, creating id 20 and
  then updating id 10 gives a reachable state whose two positions 0 and 1 both carry id
  10: the update removes the vector at position 0 and appends the new one at position 1,
  but writes the dictionary only at key 1, over the entry of id 20, and leaves the stale
  entry of id 10 at key 0. The keys are still 0 and 1, as many as there are vectors, but
  the id 10 appears twice and the vector of id 20 is now labelled 10.
\<close>

theorem create_or_update_duplicates_id:
  "let s1 = snd (add_or_update_faq g ta (load_index tz) 10 qa aa);
       s2 = snd (add_or_update_faq g tb s1 20 qb ab);
       s3 = snd (add_or_update_faq g tc s2 10 qc ac)
   in reachable g s3 \<and>
      index s3 = [g qb, g qc] \<and>
      faqs (metadata s3) =
        [(0, \<lparr>faq_id = 10, question = qa, answer = aa\<rparr>),
         (1, \<lparr>faq_id = 10, question = qc, answer = ac\<rparr>)] \<and>
      \<not> distinct (map (\<lambda>(idx, m). faq_id m) (faqs (metadata s3)))"
proof -
  have r: "reachable g (snd (add_or_update_faq g tc
       (snd (add_or_update_faq g tb
          (snd (add_or_update_faq g ta (load_index tz) 10 qa aa)) 20 qb ab)) 10 qc ac))"
    by (rule reachable_three_steps)
  show ?thesis
    unfolding Let_def
    apply (intro conjI)
       apply (rule r)
      apply (simp_all add: add_or_update_faq_def load_index_def save_index_def empty_metadata_def
        remove_ids_def ntotal_def index_add_def Let_def)
    done
qed

text \<open>
  Claim C2, at a failing input. With the ids 10, 20, 30, 40 at positions 0, 1, 2, 3,
  \<^verbatim>\<open>add_or_update_faq\<close> for id 20 removes the vector at position 1 and appends the new
  vector at position 3, so the vectors of 30 and 40 move down to positions 1 and 2. The
  dictionary is not renumbered: key 1 keeps the old record of id 20, key 2 keeps id 30,
  and the new record is written at key 3 over the record of id 40, which is lost.
\<close>

theorem update_skips_renumbering:
  "add_or_update_faq (\<lambda>q. q) ''day 2'' state_10_20_30_40 20 ''score'' (Some ''new'') =
     (3,
      let md = \<lparr>faqs = [(0, example_faq 10 ''ten''), (1, example_faq 20 ''twenty''),
                        (2, example_faq 30 ''thirty''),
                        (3, \<lparr>faq_id = 20, question = ''score'', answer = Some ''new''\<rparr>)],
                last_updated = Some ''day 2'', consistency_check = None\<rparr>;
          ix = [''ten'', ''thirty'', ''forty'', ''score'']
      in \<lparr>index = ix, metadata = md, disk = (ix, md)\<rparr>)"
  by (simp add: add_or_update_faq_def state_10_20_30_40_def example_faq_def save_index_def
        remove_ids_def ntotal_def index_add_def Let_def)

section \<open>The report of a consistency check\<close>

lemma check_add_or_update [simp]:
  "consistency_check (metadata (snd (add_or_update_faq g now s fid q a))) =
     consistency_check (metadata s)"
  by (simp add: add_or_update_faq_def save_index_def Let_def)

lemma check_delete:
  "consistency_check (metadata s) = None \<Longrightarrow>
   consistency_check (metadata (snd (delete_faq now s fid))) = None"
  by (simp add: delete_faq_def save_index_def Let_def split: option.splits)

lemma check_add_missing [simp]:
  "consistency_check (metadata (add_missing g now M fs s)) = consistency_check (metadata s)"
  by (induction fs arbitrary: s) simp_all

lemma check_remove_orphaned:
  "consistency_check (metadata s) = None \<Longrightarrow>
   consistency_check (metadata (remove_orphaned now xs s)) = None"
  by (induction xs arbitrary: s) (simp_all add: check_delete)

lemma check_perform_check:
  "consistency_check (metadata s) = None \<Longrightarrow>
   consistency_check (metadata (fst (perform_check set_iter g now fetch s))) = None"
  by (simp add: perform_check_def Let_def check_remove_orphaned
      split: fetch_outcome.splits sum.splits)

lemma check_load_index: "consistency_check (metadata (load_index tz)) = None"
  by (simp add: load_index_def save_index_def empty_metadata_def Let_def)

text \<open>
  Claim C4, at a failing input. A service started on an empty index answers
  \<^verbatim>\<open>never_run\<close>; after a consistency check has completed, whatever the fetch returned, it
  still answers \<^verbatim>\<open>never_run\<close>: \<^verbatim>\<open>perform_check\<close> fills the local \<^verbatim>\<open>result\<close> dictionary and
  logs it, and never calls \<^verbatim>\<open>save_consistency_result\<close>. That method, had it been called,
  would have stored the report where the status query reads it.
\<close>

theorem check_report_never_stored:
  "get_consistency_status (load_index tz) = NeverRun \<and>
   get_consistency_status (check_and_reindex set_iter g now fetch (load_index tz)) = NeverRun \<and>
   get_consistency_status (save_consistency_result now s res) =
     StoredCheck \<lparr>timestamp = now, result = res\<rparr>"
  using check_perform_check [OF check_load_index, of set_iter g now fetch tz]
  by (simp add: get_consistency_status_def check_and_reindex_def check_load_index
      save_consistency_result_def save_index_def Let_def)

text \<open>
  Claim C7, at a failing input. When the fetch answers with status 500 the run changes
  nothing, but its report stays at \<^verbatim>\<open>checking\<close> with no error message: the source logs
  the failure and returns. Only when the call raises (network error, timeout) does the
  report end in \<^verbatim>\<open>error\<close> with the message; the state is unchanged there too.
\<close>

theorem failed_fetch_report:
  "perform_check set_iter g now (Response 500 body) s =
     (s, \<lparr>status = Checking, faqs_total = 0, missing_in_faiss = [], orphaned_in_faiss = [],
          error = None\<rparr>) \<and>
   perform_check set_iter g now (Raised msg) s =
     (s, \<lparr>status = Error, faqs_total = 0, missing_in_faiss = [], orphaned_in_faiss = [],
          error = Some msg\<rparr>)"
  by (simp add: perform_check_def initial_result_def)

theorem failed_fetch_report_witness:
  "perform_check sorted_list_of_set (\<lambda>q. q) ''day 2''
     (Response 500 (Inl ''Internal Server Error'')) state_10_20_30_40 =
     (state_10_20_30_40,
      \<lparr>status = Checking, faqs_total = 0, missing_in_faiss = [], orphaned_in_faiss = [],
       error = None\<rparr>) \<and>
   perform_check sorted_list_of_set (\<lambda>q. q) ''day 2'' (Raised ''timed out'') state_10_20_30_40 =
     (state_10_20_30_40,
      \<lparr>status = Error, faqs_total = 0, missing_in_faiss = [], orphaned_in_faiss = [],
       error = Some ''timed out''\<rparr>)"
  by (rule failed_fetch_report)

section \<open>Search\<close>

lemma dict_get_Inr: "dict_get d k = Inr m \<longleftrightarrow> map_of d k = Some m"
  by (simp add: dict_get_def split: option.splits)

lemma dict_get_Inl: "dict_get d k = Inl e \<longleftrightarrow> map_of d k = None \<and> e = KeyError"
  by (auto simp: dict_get_def split: option.splits)

lemma map_of_None_iff: "map_of d k = None \<longleftrightarrow> k \<notin> fst ` set d"
  by (simp add: map_of_eq_None_iff)

lemma search_loop_Inr:
  "search_loop d raw acc = Inr out \<Longrightarrow>
   \<exists>rs. out = acc @ rs \<and> list_all2 (joined d) rs (real_hits raw)"
proof (induction d raw acc rule: search_loop.induct)
  case (1 d results)
  then show ?case by (simp add: real_hits_def)
next
  case (2 d sc idx rest results)
  show ?case
  proof (cases "idx = - 1")
    case True
    with 2 show ?thesis by (simp add: real_hits_def)
  next
    case False
    with "2.prems" obtain m where m: "dict_get d idx = Inr m"
      by (cases "dict_get d idx") auto
    let ?r = "\<lparr>res_id = faq_id m, res_question = question m, res_answer = answer m,
               similarity = sc\<rparr>"
    from "2.prems" False m have "search_loop d rest (results @ [?r]) = Inr out" by simp
    from "2.IH"(1) [OF False m this]
    obtain rs where rs: "out = (results @ [?r]) @ rs" "list_all2 (joined d) rs (real_hits rest)"
      by blast
    have j: "joined d ?r (sc, idx)" using m by (auto simp: joined_def dict_get_Inr)
    have "out = results @ (?r # rs)" using rs(1) by simp
    moreover have "list_all2 (joined d) (?r # rs) (real_hits ((sc, idx) # rest))"
      using rs(2) j False by (simp add: real_hits_def)
    ultimately show ?thesis by blast
  qed
qed

lemma search_loop_total:
  "\<forall>x \<in> set raw. snd x \<noteq> - 1 \<longrightarrow> snd x \<in> fst ` set d \<Longrightarrow>
   \<exists>out. search_loop d raw acc = Inr out"
proof (induction d raw acc rule: search_loop.induct)
  case (1 d results)
  then show ?case by simp
next
  case (2 d sc idx rest results)
  show ?case
  proof (cases "idx = - 1")
    case True
    with 2 show ?thesis by simp
  next
    case False
    then have "idx \<in> fst ` set d" using "2.prems" by simp
    then obtain m where m: "dict_get d idx = Inr m"
      by (cases "map_of d idx") (auto simp: dict_get_def map_of_None_iff)
    from "2.IH"(1) [OF False m] "2.prems" False m show ?thesis by simp
  qed
qed

lemma search_loop_KeyError:
  "\<exists>x \<in> set raw. snd x \<noteq> - 1 \<and> snd x \<notin> fst ` set d \<Longrightarrow>
   search_loop d raw acc = Inl KeyError"
proof (induction d raw acc rule: search_loop.induct)
  case (1 d results)
  then show ?case by simp
next
  case (2 d sc idx rest results)
  show ?case
  proof (cases "idx = - 1")
    case True
    with 2 show ?thesis by simp
  next
    case False
    show ?thesis
    proof (cases "dict_get d idx")
      case (Inl e)
      moreover from Inl have "e = KeyError" by (simp add: dict_get_Inl)
      ultimately show ?thesis using False by simp
    next
      case (Inr m)
      then have "idx \<in> fst ` set d"
        using map_of_None_iff [of d idx] by (simp add: dict_get_Inr)
      then have "\<exists>x \<in> set rest. snd x \<noteq> - 1 \<and> snd x \<notin> fst ` set d"
        using "2.prems" by auto
      from "2.IH"(1) [OF False Inr this] False Inr show ?thesis by simp
    qed
  qed
qed

lemma real_hits_index_search:
  "real_hits (index_search ip ix q k) =
     take k (sort_key (\<lambda>(sc, p). - sc) (map (\<lambda>(p, v). (ip q v, int p)) (enumerate 0 ix)))"
proof -
  let ?scored = "map (\<lambda>(p, v). (ip q v, int p)) (enumerate 0 ix)"
  let ?hits = "take k (sort_key (\<lambda>(sc, p). - sc) ?scored)"
  have "\<forall>x \<in> set ?scored. snd x \<noteq> - 1" by auto
  moreover have "set ?hits \<subseteq> set ?scored"
    using set_take_subset [of k "sort_key (\<lambda>(sc, p). - sc) ?scored"] by simp
  ultimately have "\<forall>x \<in> set ?hits. snd x \<noteq> - 1" by blast
  then have "[x \<leftarrow> ?hits. snd x \<noteq> - 1] = ?hits" by (simp add: filter_id_conv)
  then show ?thesis by (simp add: real_hits_def index_search_def Let_def)
qed

lemma length_real_hits: "length (real_hits (index_search ip ix q k)) = min k (length ix)"
  by (simp add: real_hits_index_search min.commute)

lemma real_hits_in_range:
  assumes "x \<in> set (real_hits (index_search ip ix q k))"
  shows "0 \<le> snd x \<and> snd x < ntotal ix"
proof -
  let ?scored = "map (\<lambda>(p, v). (ip q v, int p)) (enumerate 0 ix)"
  have "x \<in> set (sort_key (\<lambda>(sc, p). - sc) ?scored)"
    using assms unfolding real_hits_index_search by (rule in_set_takeD)
  then have "x \<in> set ?scored" by simp
  then show ?thesis by (auto simp: ntotal_def in_set_enumerate_eq)
qed

lemma real_hits_sorted:
  "sorted_wrt (\<lambda>x y. fst x \<ge> fst y) (real_hits (index_search ip ix q k))"
proof -
  let ?scored = "map (\<lambda>(p, v). (ip q v, int p)) (enumerate 0 ix)"
  have "sorted (map (\<lambda>(sc, p). - sc) (sort_key (\<lambda>(sc, p). - sc) ?scored))"
    by (rule sorted_sort_key)
  then have "sorted_wrt (\<lambda>x y. fst x \<ge> fst y) (sort_key (\<lambda>(sc, p). - sc) ?scored)"
    by (simp add: sorted_wrt_map case_prod_unfold)
  then show ?thesis
    unfolding real_hits_index_search by (rule sorted_wrt_take)
qed

lemma search_Inr:
  assumes "search g ip s q k = Inr rs"
  shows "list_all2 (joined (faqs (metadata s))) rs (real_hits (index_search ip (index s) (g q) k))"
  using search_loop_Inr [of "faqs (metadata s)" _ "[]" rs] assms
  by (auto simp: search_def Let_def)

lemma joined_similarity: "list_all2 (joined d) rs hs \<Longrightarrow> map similarity rs = map fst hs"
  by (induction rule: list_all2_induct) (auto simp: joined_def)

lemma search_sorted:
  assumes "search g ip s q k = Inr rs"
  shows "sorted_wrt (\<lambda>a b. similarity a \<ge> similarity b) rs"
proof -
  have "map similarity rs = map fst (real_hits (index_search ip (index s) (g q) k))"
    using search_Inr [OF assms] by (rule joined_similarity)
  moreover have "sorted_wrt (\<ge>) (map fst (real_hits (index_search ip (index s) (g q) k)))"
    using real_hits_sorted [of ip "index s" "g q" k] by (simp add: sorted_wrt_map)
  ultimately have "sorted_wrt (\<ge>) (map similarity rs)" by simp
  then show ?thesis by (simp add: sorted_wrt_map)
qed

lemma list_all2_set1:
  "list_all2 P xs ys \<Longrightarrow> x \<in> set xs \<Longrightarrow> \<exists>y \<in> set ys. P x y"
  by (induction rule: list_all2_induct) auto

lemma search_empty_index:
  assumes "index s = []"
  shows "search g ip s q k = Inr []"
proof -
  let ?raw = "index_search ip (index s) (g q) k"
  have hits: "real_hits ?raw = []"
    using length_real_hits [of ip "index s" "g q" k] assms by simp
  then have "\<forall>x \<in> set ?raw. snd x \<noteq> - 1 \<longrightarrow> snd x \<in> fst ` set (faqs (metadata s))"
    by (auto simp: real_hits_def filter_empty_conv)
  from search_loop_total [OF this, of "[]"]
  obtain out where out: "search_loop (faqs (metadata s)) ?raw [] = Inr out" by blast
  from search_loop_Inr [OF out] hits have "out = []" by simp
  with out show ?thesis by (simp add: search_def Let_def)
qed

lemma example_index_search:
  "index_search example_ip [''ten'', ''twenty'', ''thirty'', ''forty''] q 3 =
     [(0.8, 0), (0.6, 1), (0.5, 2)]"
  by (simp add: index_search_def example_ip_def Let_def enumerate_eq_zip)

lemma example_search:
  "search (\<lambda>q. q) example_ip state_10_20_30_40 ''how many'' 3 =
     Inr [hit_ten, hit_twenty, hit_thirty]"
  by (simp add: search_def example_index_search state_10_20_30_40_def example_faq_def
      dict_get_def Let_def hit_ten_def hit_twenty_def hit_thirty_def)

text \<open>
  Claim C9. \<^verbatim>\<open>search\<close> looks every real hit up in the metadata without a guard. When
  the dictionary has an entry for every position below \<open>ntotal\<close> (and \<open>top_k \<ge> 1\<close>, as the
  interface requires), \<^verbatim>\<open>search\<close> returns, and its results are, in order, the joins of
  the real hits with the entries stored at their positions: each carries exactly the id,
  question and answer of its position. When some real hit has a position without an
  entry, \<^verbatim>\<open>search\<close> raises \<^verbatim>\<open>KeyError\<close>.
\<close>

theorem search_joins_metadata:
  "(1 \<le> k \<and> (\<forall>p. 0 \<le> p \<and> p < ntotal (index s) \<longrightarrow> p \<in> fst ` set (faqs (metadata s))) \<longrightarrow>
      (\<exists>rs. search g ip s q k = Inr rs \<and>
            list_all2 (joined (faqs (metadata s))) rs
              (real_hits (index_search ip (index s) (g q) k)))) \<and>
   ((\<exists>x \<in> set (real_hits (index_search ip (index s) (g q) k)).
        snd x \<notin> fst ` set (faqs (metadata s))) \<longrightarrow>
      search g ip s q k = Inl KeyError)"
proof (intro conjI impI)
  let ?raw = "index_search ip (index s) (g q) k"
  assume a: "1 \<le> k \<and> (\<forall>p. 0 \<le> p \<and> p < ntotal (index s) \<longrightarrow> p \<in> fst ` set (faqs (metadata s)))"
  have "\<forall>x \<in> set ?raw. snd x \<noteq> - 1 \<longrightarrow> snd x \<in> fst ` set (faqs (metadata s))"
  proof (intro ballI impI)
    fix x assume "x \<in> set ?raw" "snd x \<noteq> - 1"
    then have "x \<in> set (real_hits ?raw)" by (simp add: real_hits_def)
    then have "0 \<le> snd x \<and> snd x < ntotal (index s)" by (rule real_hits_in_range)
    with a show "snd x \<in> fst ` set (faqs (metadata s))" by blast
  qed
  from search_loop_total [OF this, of "[]"]
  obtain rs where rs: "search g ip s q k = Inr rs" by (auto simp: search_def Let_def)
  with search_Inr [OF rs]
  show "\<exists>rs. search g ip s q k = Inr rs \<and>
            list_all2 (joined (faqs (metadata s))) rs (real_hits ?raw)" by blast
next
  let ?raw = "index_search ip (index s) (g q) k"
  assume "\<exists>x \<in> set (real_hits ?raw). snd x \<notin> fst ` set (faqs (metadata s))"
  then obtain x where "x \<in> set ?raw" "snd x \<noteq> - 1" "snd x \<notin> fst ` set (faqs (metadata s))"
    by (auto simp: real_hits_def)
  then have "\<exists>x \<in> set ?raw. snd x \<noteq> - 1 \<and> snd x \<notin> fst ` set (faqs (metadata s))"
    by blast
  then have "search_loop (faqs (metadata s)) ?raw [] = Inl KeyError"
    by (rule search_loop_KeyError)
  then show "search g ip s q k = Inl KeyError" by (simp add: search_def Let_def)
qed

theorem search_joins_metadata_witness:
  "dense state_10_20_30_40 \<and>
   (\<exists>rs. search (\<lambda>q. q) example_ip state_10_20_30_40 ''how many'' 3 = Inr rs \<and>
      list_all2 (joined (faqs (metadata state_10_20_30_40))) rs [(0.8, 0), (0.6, 1), (0.5, 2)]) \<and>
   search (\<lambda>q. q) example_ip state_10_20_30_40 ''how many'' 3 =
     Inr [hit_ten, hit_twenty, hit_thirty] \<and>
   (0.6, 1) \<in> set (real_hits (index_search example_ip (index state_gap) ''how many'' 3)) \<and>
   1 \<notin> fst ` set (faqs (metadata state_gap)) \<and>
   search (\<lambda>q. q) example_ip state_gap ''how many'' 3 = Inl KeyError"
proof -
  have d: "dense state_10_20_30_40"
    by (auto simp: dense_def state_10_20_30_40_def ntotal_def Let_def)
  have h1: "1 \<le> (3::nat) \<and> (\<forall>p. 0 \<le> p \<and> p < ntotal (index state_10_20_30_40) \<longrightarrow>
      p \<in> fst ` set (faqs (metadata state_10_20_30_40)))"
    using d by (simp add: dense_def)
  have r1: "real_hits (index_search example_ip (index state_10_20_30_40) ''how many'' 3) =
      [(0.8, 0), (0.6, 1), (0.5, 2)]"
    by (simp add: state_10_20_30_40_def Let_def example_index_search real_hits_def)
  have r2: "real_hits (index_search example_ip (index state_gap) ''how many'' 3) =
      [(0.8, 0), (0.6, 1), (0.5, 2)]"
    by (simp add: state_gap_def state_10_20_30_40_def Let_def example_index_search real_hits_def)
  have k2: "1 \<notin> fst ` set (faqs (metadata state_gap))"
    by (simp add: state_gap_def)
  have h2: "\<exists>x \<in> set (real_hits (index_search example_ip (index state_gap) ''how many'' 3)).
      snd x \<notin> fst ` set (faqs (metadata state_gap))"
    using k2 unfolding r2 by simp
  note t1 = search_joins_metadata [where g = "\<lambda>q. q" and q = "''how many''" and ip = example_ip
      and s = state_10_20_30_40 and k = 3, THEN conjunct1, rule_format, OF h1]
  note t2 = search_joins_metadata [where g = "\<lambda>q. q" and q = "''how many''" and ip = example_ip
      and s = state_gap and k = 3, THEN conjunct2, rule_format, OF h2]
  show ?thesis using d t1 t2 r1 r2 k2 example_search by simp
qed

text \<open>
  Claim C8. A query against an index with no vector (with \<open>top_k \<ge> 1\<close>) returns the
  answer with an empty list of alternatives, for every threshold, and raises nothing.
  Whenever \<^verbatim>\<open>search\<close> returns, it returns at most \<open>min(top_k, ntotal)\<close> results, and each
  of them is the join of a hit that is no filler and whose position lies in
  \<open>[0, ntotal)\<close>.
\<close>

theorem empty_index_query:
  "(1 \<le> top_k inp \<and> index s = [] \<longrightarrow> query hc g ip s inp = Inr (Alternatives [])) \<and>
   (\<forall>rs. search g ip s q k = Inr rs \<longrightarrow>
      int (length rs) \<le> min (int k) (ntotal (index s)) \<and>
      (\<forall>r \<in> set rs. \<exists>x \<in> set (index_search ip (index s) (g q) k).
         snd x \<noteq> - 1 \<and> 0 \<le> snd x \<and> snd x < ntotal (index s) \<and>
         joined (faqs (metadata s)) r x))"
proof (intro conjI allI impI ballI)
  assume "1 \<le> top_k inp \<and> index s = []"
  then have "search g ip s (query_str inp) (top_k inp) = Inr []"
    by (simp add: search_empty_index)
  then show "query hc g ip s inp = Inr (Alternatives [])"
    by (simp add: query_def filter_results_def classify_def split: option.splits)
next
  fix rs assume a: "search g ip s q k = Inr rs"
  let ?hits = "real_hits (index_search ip (index s) (g q) k)"
  have j: "list_all2 (joined (faqs (metadata s))) rs ?hits" using a by (rule search_Inr)
  then have "length rs = length ?hits" by (rule list_all2_lengthD)
  then show "int (length rs) \<le> min (int k) (ntotal (index s))"
    by (simp add: length_real_hits ntotal_def)
  fix r assume r: "r \<in> set rs"
  have "\<exists>x \<in> set ?hits. joined (faqs (metadata s)) r x"
    using j r by (rule list_all2_set1)
  then obtain x where x: "x \<in> set ?hits" and jx: "joined (faqs (metadata s)) r x" ..
  from x have mem: "x \<in> set (index_search ip (index s) (g q) k)" and real: "snd x \<noteq> - 1"
    by (simp_all add: real_hits_def)
  from x have range: "0 \<le> snd x \<and> snd x < ntotal (index s)" by (rule real_hits_in_range)
  from real range jx
  have "snd x \<noteq> - 1 \<and> 0 \<le> snd x \<and> snd x < ntotal (index s) \<and>
      joined (faqs (metadata s)) r x"
    by simp
  with mem show "\<exists>x \<in> set (index_search ip (index s) (g q) k).
         snd x \<noteq> - 1 \<and> 0 \<le> snd x \<and> snd x < ntotal (index s) \<and>
         joined (faqs (metadata s)) r x"
    by (rule bexI [rotated])
qed

theorem empty_index_query_witness:
  "index (load_index ''day 0'' :: string embedding_model) = [] \<and>
   query 0.8 (\<lambda>q. q) example_ip (load_index ''day 0'')
     \<lparr>query_str = ''how many'', threshold = Some 0.6, top_k = 3\<rparr> = Inr (Alternatives []) \<and>
   search (\<lambda>q. q) example_ip state_10_20_30_40 ''how many'' 3 =
     Inr [hit_ten, hit_twenty, hit_thirty] \<and>
   int (length [hit_ten, hit_twenty, hit_thirty]) \<le> min (int 3) (ntotal (index state_10_20_30_40))"
proof -
  have h1: "1 \<le> top_k \<lparr>query_str = ''how many'', threshold = Some 0.6, top_k = 3\<rparr> \<and>
      index (load_index ''day 0'' :: string embedding_model) = []"
    by (simp add: load_index_def save_index_def Let_def)
  note t1 = empty_index_query [THEN conjunct1, rule_format, OF h1]
  note t2 = empty_index_query [THEN conjunct2, rule_format, OF example_search, THEN conjunct1]
  show ?thesis using h1 t1 [of "0.8" "\<lambda>q. q" example_ip] t2 example_search by simp
qed

section \<open>Classifying the results of a query\<close>

lemma sorted_hd_max:
  "sorted_wrt (\<lambda>a b. similarity a \<ge> similarity b) fs \<Longrightarrow> r \<in> set fs \<Longrightarrow>
   similarity r \<le> similarity (hd fs)"
  by (cases fs) auto

lemma classify_best:
  "fs \<noteq> [] \<Longrightarrow> similarity (hd fs) > hc \<Longrightarrow>
   classify hc fs = BestMatch (res_question (hd fs)) (res_answer (hd fs)) (similarity (hd fs))"
  by (cases fs) (simp_all add: classify_def)

lemma classify_alternatives:
  "fs = [] \<or> similarity (hd fs) \<le> hc \<Longrightarrow>
   classify hc fs = Alternatives (map (\<lambda>r. (res_id r, res_question r, similarity r)) fs)"
  by (cases fs) (auto simp: classify_def)

lemma query_unfold:
  "search g ip s (query_str inp) (top_k inp) = Inr results \<Longrightarrow> threshold inp = Some t \<Longrightarrow>
   query hc g ip s inp = Inr (classify hc [r \<leftarrow> results. similarity r \<ge> t])"
  by (simp add: query_def filter_results_def)

lemma alternative_mem:
  "r \<in> set fs \<Longrightarrow>
   (res_id r, res_question r, similarity r) \<in>
     set (map (\<lambda>r. (res_id r, res_question r, similarity r)) fs)"
  by (induction fs) auto

text \<open>
  Claim C5. The filter keeps exactly the results whose similarity is at least the
  threshold (\<open>\<ge>\<close>), in their order; a query whose search returned and whose threshold is a
  number answers with the classification of the filtered list, whose first element has
  the highest similarity. The answer is a \<^verbatim>\<open>best_match\<close> exactly when the filtered list is
  not empty and the similarity of its first element is strictly above the
  high-confidence threshold, and then it is that element; otherwise it is the list of
  alternatives, one per filtered result, without the answers. With threshold 0.6 and
  high-confidence threshold 0.8: a result of similarity exactly 0.6 passes the filter; when
  the best filtered result has similarity exactly 0.8 the answer is the list of
  alternatives, which holds that result and every filtered result of similarity 0.6.
\<close>

theorem query_classification:
  "filter_results (Some t) results = Inr [r \<leftarrow> results. similarity r \<ge> t] \<and>
   (search g ip s (query_str inp) (top_k inp) = Inr results \<and> threshold inp = Some t \<longrightarrow>
      query hc g ip s inp = Inr (classify hc [r \<leftarrow> results. similarity r \<ge> t]) \<and>
      (\<forall>r \<in> set [r \<leftarrow> results. similarity r \<ge> t].
         similarity r \<le> similarity (hd [r \<leftarrow> results. similarity r \<ge> t]))) \<and>
   ((\<exists>bq ba bs. classify hc fs = BestMatch bq ba bs) \<longleftrightarrow> fs \<noteq> [] \<and> similarity (hd fs) > hc) \<and>
   (fs \<noteq> [] \<and> similarity (hd fs) > hc \<longrightarrow>
      classify hc fs =
        BestMatch (res_question (hd fs)) (res_answer (hd fs)) (similarity (hd fs))) \<and>
   (fs = [] \<or> similarity (hd fs) \<le> hc \<longrightarrow>
      classify hc fs = Alternatives (map (\<lambda>r. (res_id r, res_question r, similarity r)) fs)) \<and>
   (\<forall>r \<in> set results. similarity r = 0.6 \<longrightarrow> r \<in> set [r \<leftarrow> results. similarity r \<ge> 0.6]) \<and>
   (fs \<noteq> [] \<and> similarity (hd fs) = 0.8 \<longrightarrow>
      classify 0.8 fs = Alternatives (map (\<lambda>r. (res_id r, res_question r, similarity r)) fs) \<and>
      (res_id (hd fs), res_question (hd fs), 0.8) \<in>
         set (map (\<lambda>r. (res_id r, res_question r, similarity r)) fs) \<and>
      (\<forall>r \<in> set fs. similarity r = 0.6 \<longrightarrow>
         (res_id r, res_question r, 0.6) \<in>
           set (map (\<lambda>r. (res_id r, res_question r, similarity r)) fs)))"
proof (intro conjI impI ballI)
  show "filter_results (Some t) results = Inr [r \<leftarrow> results. similarity r \<ge> t]"
    by (simp add: filter_results_def)
next
  assume a: "search g ip s (query_str inp) (top_k inp) = Inr results \<and> threshold inp = Some t"
  then show "query hc g ip s inp = Inr (classify hc [r \<leftarrow> results. similarity r \<ge> t])"
    by (simp add: query_unfold)
  fix r assume r: "r \<in> set [r \<leftarrow> results. similarity r \<ge> t]"
  have "sorted_wrt (\<lambda>a b. similarity a \<ge> similarity b) results"
    using a search_sorted by blast
  then have "sorted_wrt (\<lambda>a b. similarity a \<ge> similarity b) [r \<leftarrow> results. similarity r \<ge> t]"
    by (rule sorted_wrt_filter)
  then show "similarity r \<le> similarity (hd [r \<leftarrow> results. similarity r \<ge> t])"
    using r by (rule sorted_hd_max)
next
  show "(\<exists>bq ba bs. classify hc fs = BestMatch bq ba bs) \<longleftrightarrow> fs \<noteq> [] \<and> similarity (hd fs) > hc"
    by (cases fs) (auto simp: classify_def)
next
  assume "fs \<noteq> [] \<and> similarity (hd fs) > hc"
  then show "classify hc fs =
        BestMatch (res_question (hd fs)) (res_answer (hd fs)) (similarity (hd fs))"
    by (simp add: classify_best)
next
  assume "fs = [] \<or> similarity (hd fs) \<le> hc"
  then show "classify hc fs = Alternatives (map (\<lambda>r. (res_id r, res_question r, similarity r)) fs)"
    by (rule classify_alternatives)
next
  fix r assume "r \<in> set results" "similarity r = 0.6"
  then show "r \<in> set [r \<leftarrow> results. similarity r \<ge> 0.6]" by simp
next
  assume a: "fs \<noteq> [] \<and> similarity (hd fs) = 0.8"
  then show "classify 0.8 fs = Alternatives (map (\<lambda>r. (res_id r, res_question r, similarity r)) fs)"
    by (simp add: classify_alternatives)
  from a have h: "hd fs \<in> set fs" by simp
  from a have e: "similarity (hd fs) = 0.8" by (rule conjunct2)
  show "(res_id (hd fs), res_question (hd fs), 0.8) \<in>
         set (map (\<lambda>r. (res_id r, res_question r, similarity r)) fs)"
    using alternative_mem [OF h] unfolding e .
  fix r assume r: "r \<in> set fs" and e6: "similarity r = 0.6"
  show "(res_id r, res_question r, 0.6) \<in>
           set (map (\<lambda>r. (res_id r, res_question r, similarity r)) fs)"
    using alternative_mem [OF r] unfolding e6 .
qed

theorem query_classification_witness:
  "search (\<lambda>q. q) example_ip state_10_20_30_40 ''how many'' 3 =
     Inr [hit_ten, hit_twenty, hit_thirty] \<and>
   filter_results (Some 0.6) [hit_ten, hit_twenty, hit_thirty] = Inr [hit_ten, hit_twenty] \<and>
   query 0.8 (\<lambda>q. q) example_ip state_10_20_30_40
     \<lparr>query_str = ''how many'', threshold = Some 0.6, top_k = 3\<rparr> =
     Inr (Alternatives [(10, ''ten'', 0.8), (20, ''twenty'', 0.6)]) \<and>
   classify 0.5 [hit_ten, hit_twenty] = BestMatch ''ten'' (Some ''answer'') 0.8"
proof -
  let ?inp = "\<lparr>query_str = ''how many'', threshold = Some 0.6, top_k = 3\<rparr>"
  let ?rs = "[hit_ten, hit_twenty, hit_thirty]"
  let ?fs = "[hit_ten, hit_twenty]"
  have f: "[r \<leftarrow> ?rs. similarity r \<ge> 0.6] = ?fs"
    by (simp add: hit_ten_def hit_twenty_def hit_thirty_def)
  have h2: "search (\<lambda>q. q) example_ip state_10_20_30_40 (query_str ?inp) (top_k ?inp) = Inr ?rs \<and>
      threshold ?inp = Some 0.6"
    by (simp add: example_search)
  have h7: "?fs \<noteq> [] \<and> similarity (hd ?fs) = 0.8" by (simp add: hit_ten_def)
  have h4: "?fs \<noteq> [] \<and> similarity (hd ?fs) > 0.5" by (simp add: hit_ten_def)
  note t = query_classification [where results = ?rs and t = "0.6" and hc = "0.8"
      and g = "\<lambda>q. q" and ip = example_ip and s = state_10_20_30_40 and inp = ?inp and fs = ?fs]
  note u = query_classification [where results = ?rs and t = "0.6" and hc = "0.5"
      and g = "\<lambda>q. q" and ip = example_ip and s = state_10_20_30_40 and inp = ?inp and fs = ?fs]
  have c1: "filter_results (Some 0.6) ?rs = Inr [r \<leftarrow> ?rs. similarity r \<ge> 0.6]"
    using t by (rule conjunct1)
  have c2: "query 0.8 (\<lambda>q. q) example_ip state_10_20_30_40 ?inp =
      Inr (classify 0.8 [r \<leftarrow> ?rs. similarity r \<ge> 0.6])"
    using t h2 by blast
  have c7: "classify 0.8 ?fs = Alternatives (map (\<lambda>r. (res_id r, res_question r, similarity r)) ?fs)"
    using t h7 by blast
  have c4: "classify 0.5 ?fs =
      BestMatch (res_question (hd ?fs)) (res_answer (hd ?fs)) (similarity (hd ?fs))"
    using u h4 by blast
  show ?thesis
    unfolding c2 c1 f c7 c4
    by (simp add: example_search hit_ten_def hit_twenty_def)
qed


section \<open>Reconciliation with the authoritative source\<close>

text \<open>
  Adding a record whose id is not in the index, to a dense state: the record goes to the
  end of the dictionary, at the position of the new vector.
\<close>

lemma add_new_faqs:
  assumes n: "find_idx (faqs (metadata s)) fid = None" and d: "dense s"
  shows "faqs (metadata (snd (add_or_update_faq g now s fid q a))) =
     faqs (metadata s) @ [(ntotal (index s), \<lparr>faq_id = fid, question = q, answer = a\<rparr>)]"
proof -
  have "set (map fst (faqs (metadata s))) = {0..<ntotal (index s)}"
    using d by (simp add: dense_def)
  then have fresh: "ntotal (index s) \<notin> fst ` set (faqs (metadata s))" by auto
  show ?thesis
    unfolding add_or_update_new(2) [OF n] using fresh by (rule dict_set_fresh)
qed

lemma add_new_ids:
  assumes n: "fid \<notin> faiss_faq_ids (faqs (metadata s))" and d: "dense s"
  shows "faiss_faq_ids (faqs (metadata (snd (add_or_update_faq g now s fid q a)))) =
           insert fid (faiss_faq_ids (faqs (metadata s)))"
    and "unique_ids s \<Longrightarrow> unique_ids (snd (add_or_update_faq g now s fid q a))"
    and "snd ` set (faqs (metadata (snd (add_or_update_faq g now s fid q a)))) =
           insert \<lparr>faq_id = fid, question = q, answer = a\<rparr> (snd ` set (faqs (metadata s)))"
proof -
  have f: "find_idx (faqs (metadata s)) fid = None" using n by (simp add: find_idx_None_iff)
  note e = add_new_faqs [OF f d, of g now q a]
  show "faiss_faq_ids (faqs (metadata (snd (add_or_update_faq g now s fid q a)))) =
           insert fid (faiss_faq_ids (faqs (metadata s)))"
    unfolding e by (simp add: faiss_faq_ids_def)
  show "unique_ids s \<Longrightarrow> unique_ids (snd (add_or_update_faq g now s fid q a))"
    unfolding unique_ids_def e using n by (simp add: faiss_faq_ids_def)
  show "snd ` set (faqs (metadata (snd (add_or_update_faq g now s fid q a)))) =
           insert \<lparr>faq_id = fid, question = q, answer = a\<rparr> (snd ` set (faqs (metadata s)))"
    unfolding e by simp
qed

lemma id_renumber: "(\<lambda>(idx, m). faq_id m) (renumber r e) = (\<lambda>(idx, m). faq_id m) e"
  by (cases e) (simp add: renumber_def)

lemma snd_renumber: "snd (renumber r e) = snd e"
  by (cases e) (simp add: renumber_def)

lemma filter_key_ids:
  fixes d :: faqs_dict
  assumes k: "distinct (map fst d)" and u: "distinct (map (\<lambda>(idx, m). faq_id m) d)"
    and m: "(r, m0) \<in> set d"
  shows "(\<lambda>(idx, m). faq_id m) ` {e \<in> set d. fst e \<noteq> r} =
         (\<lambda>(idx, m). faq_id m) ` set d - {faq_id m0}"
proof (intro equalityI subsetI)
  have ik: "inj_on fst (set d)" using k by (simp add: distinct_map)
  have iu: "inj_on (\<lambda>(idx, m). faq_id m) (set d)" using u by (simp add: distinct_map)
  {
    fix x assume "x \<in> (\<lambda>(idx, m). faq_id m) ` {e \<in> set d. fst e \<noteq> r}"
    then obtain e where e: "e \<in> set d" "fst e \<noteq> r" "x = (\<lambda>(idx, m). faq_id m) e" by auto
    have "x \<noteq> faq_id m0"
    proof
      assume "x = faq_id m0"
      then have "(\<lambda>(idx, m). faq_id m) e = (\<lambda>(idx, m). faq_id m) (r, m0)" using e(3) by simp
      from inj_onD [OF iu this e(1) m] have "e = (r, m0)" .
      then show False using e(2) by simp
    qed
    then show "x \<in> (\<lambda>(idx, m). faq_id m) ` set d - {faq_id m0}" using e by auto
  }
  {
    fix x assume "x \<in> (\<lambda>(idx, m). faq_id m) ` set d - {faq_id m0}"
    then obtain e where e: "e \<in> set d" "x = (\<lambda>(idx, m). faq_id m) e" "x \<noteq> faq_id m0" by auto
    have "fst e \<noteq> r"
    proof
      assume "fst e = r"
      then have "fst e = fst (r, m0)" by simp
      from inj_onD [OF ik this e(1) m] have "e = (r, m0)" .
      then show False using e(2,3) by simp
    qed
    then show "x \<in> (\<lambda>(idx, m). faq_id m) ` {e \<in> set d. fst e \<noteq> r}" using e by auto
  }
qed

lemma delete_ids:
  assumes d: "dense s" and u: "unique_ids s"
  shows "faiss_faq_ids (faqs (metadata (snd (delete_faq now s fid)))) =
           faiss_faq_ids (faqs (metadata s)) - {fid}"
    and "unique_ids (snd (delete_faq now s fid))"
    and "{m \<in> snd ` set (faqs (metadata s)). faq_id m \<noteq> fid}
           \<subseteq> snd ` set (faqs (metadata (snd (delete_faq now s fid))))"
proof -
  let ?d = "faqs (metadata s)"
  let ?s' = "snd (delete_faq now s fid)"
  have k: "distinct (map fst ?d)" using d by (simp add: dense_def)
  have ud: "distinct (map (\<lambda>(idx, m). faq_id m) ?d)" using u by (simp add: unique_ids_def)
  have "faiss_faq_ids (faqs (metadata ?s')) = faiss_faq_ids ?d - {fid} \<and> unique_ids ?s' \<and>
      {m \<in> snd ` set ?d. faq_id m \<noteq> fid} \<subseteq> snd ` set (faqs (metadata ?s'))"
  proof (cases "find_idx ?d fid")
    case None
    then have "delete_faq now s fid = (False, s)" by (simp add: delete_faq_def)
    moreover have "fid \<notin> faiss_faq_ids ?d" using None by (simp add: find_idx_None_iff)
    ultimately show ?thesis using u by auto
  next
    case (Some r)
    then obtain m0 where m0: "(r, m0) \<in> set ?d" "faq_id m0 = fid"
      using find_idx_Some_mem by blast
    have e: "faqs (metadata ?s') = map (renumber r) [e \<leftarrow> ?d. fst e \<noteq> r]"
      using Some k by (rule delete_known(3))
    have ids: "map (\<lambda>(idx, m). faq_id m) (faqs (metadata ?s')) =
        map (\<lambda>(idx, m). faq_id m) [e \<leftarrow> ?d. fst e \<noteq> r]"
      unfolding e by (simp add: id_renumber)
    have a: "faiss_faq_ids (faqs (metadata ?s')) = faiss_faq_ids ?d - {fid}"
      unfolding faiss_faq_ids_def ids
      using filter_key_ids [OF k ud m0(1)] m0(2) by simp
    have b: "unique_ids ?s'"
      unfolding unique_ids_def ids using ud by (rule distinct_map_filter)
    have c: "{m \<in> snd ` set ?d. faq_id m \<noteq> fid} \<subseteq> snd ` set (faqs (metadata ?s'))"
    proof
      fix m assume "m \<in> {m \<in> snd ` set ?d. faq_id m \<noteq> fid}"
      then obtain i where i: "(i, m) \<in> set ?d" "faq_id m \<noteq> fid" by auto
      have "i \<noteq> r"
      proof
        assume "i = r"
        then have "(r, m) \<in> set ?d" using i(1) by simp
        from eq_key_imp_eq_value [OF k this m0(1)] have "m = m0" .
        then show False using i(2) m0(2) by simp
      qed
      then have "(i, m) \<in> set [e \<leftarrow> ?d. fst e \<noteq> r]" using i(1) by simp
      then have "renumber r (i, m) \<in> set (faqs (metadata ?s'))" unfolding e by simp
      then have "snd (renumber r (i, m)) \<in> snd ` set (faqs (metadata ?s'))" by (rule imageI)
      then show "m \<in> snd ` set (faqs (metadata ?s'))" by (simp add: snd_renumber)
    qed
    from a b c show ?thesis by simp
  qed
  then show "faiss_faq_ids (faqs (metadata ?s')) = faiss_faq_ids ?d - {fid}"
    and "unique_ids ?s'"
    and "{m \<in> snd ` set ?d. faq_id m \<noteq> fid} \<subseteq> snd ` set (faqs (metadata ?s'))"
    by simp_all
qed

lemma faq_surj: "\<lparr>faq_id = faq_id f, question = question f, answer = answer f\<rparr> = f"
  by simp

text \<open>
  The loop adding the missing records, from a dense state with unique ids and for an
  authoritative list with distinct ids none of which is indexed yet: the state stays dense
  with unique ids, the indexed ids grow by the missing ids of the list, and no record is
  lost.
\<close>

lemma add_missing_inv:
  assumes "dense s" "unique_ids s" "distinct (map faq_id fs)"
    and "\<forall>f \<in> set fs. faq_id f \<in> M \<longrightarrow> faq_id f \<notin> faiss_faq_ids (faqs (metadata s))"
  shows "dense (add_missing g now M fs s) \<and> unique_ids (add_missing g now M fs s) \<and>
     faiss_faq_ids (faqs (metadata (add_missing g now M fs s))) =
       faiss_faq_ids (faqs (metadata s)) \<union> (faq_id ` set fs \<inter> M) \<and>
     snd ` set (faqs (metadata s)) \<subseteq> snd ` set (faqs (metadata (add_missing g now M fs s))) \<and>
     (\<forall>f \<in> set fs. faq_id f \<in> M \<longrightarrow> f \<in> snd ` set (faqs (metadata (add_missing g now M fs s))))"
  using assms
proof (induction fs arbitrary: s)
  case Nil
  then show ?case by simp
next
  case (Cons f fs)
  have p3: "distinct (map faq_id fs)" and nf: "faq_id f \<notin> faq_id ` set fs"
    using Cons.prems(3) by simp_all
  show ?case
  proof (cases "faq_id f \<in> M")
    case False
    have p4: "\<forall>f' \<in> set fs. faq_id f' \<in> M \<longrightarrow> faq_id f' \<notin> faiss_faq_ids (faqs (metadata s))"
      using Cons.prems(4) by simp
    have eq: "add_missing g now M (f # fs) s = add_missing g now M fs s" using False by simp
    have ids: "faq_id ` set (f # fs) \<inter> M = faq_id ` set fs \<inter> M" using False by auto
    from Cons.IH [OF Cons.prems(1,2) p3 p4] show ?thesis
      unfolding eq ids using False by auto
  next
    case True
    let ?s1 = "snd (add_or_update_faq g now s (faq_id f) (question f) (answer f))"
    have n: "faq_id f \<notin> faiss_faq_ids (faqs (metadata s))" using Cons.prems(4) True by simp
    have d1: "dense ?s1" using Cons.prems(1) by (rule dense_add_or_update)
    have u1: "unique_ids ?s1" using add_new_ids(2) [OF n Cons.prems(1)] Cons.prems(2) by blast
    have i1: "faiss_faq_ids (faqs (metadata ?s1)) = insert (faq_id f) (faiss_faq_ids (faqs (metadata s)))"
      using n Cons.prems(1) by (rule add_new_ids(1))
    have r1: "snd ` set (faqs (metadata ?s1)) = insert f (snd ` set (faqs (metadata s)))"
      using add_new_ids(3) [OF n Cons.prems(1), of g now "question f" "answer f"]
      by (simp only: faq_surj)
    have p4: "\<forall>f' \<in> set fs. faq_id f' \<in> M \<longrightarrow> faq_id f' \<notin> faiss_faq_ids (faqs (metadata ?s1))"
    proof (intro ballI impI)
      fix f' assume f': "f' \<in> set fs" "faq_id f' \<in> M"
      then have "faq_id f' \<notin> faiss_faq_ids (faqs (metadata s))" using Cons.prems(4) by simp
      moreover have "faq_id f' \<noteq> faq_id f" using nf f'(1) by (metis imageI)
      ultimately show "faq_id f' \<notin> faiss_faq_ids (faqs (metadata ?s1))" unfolding i1 by simp
    qed
    have eq: "add_missing g now M (f # fs) s = add_missing g now M fs ?s1" using True by simp
    have ids: "faq_id ` set (f # fs) \<inter> M = insert (faq_id f) (faq_id ` set fs \<inter> M)"
      using True by auto
    note ih = Cons.IH [OF d1 u1 p3 p4]
    let ?t = "add_missing g now M fs ?s1"
    from ih have a: "dense ?t" and b: "unique_ids ?t"
      and c: "faiss_faq_ids (faqs (metadata ?t)) =
          faiss_faq_ids (faqs (metadata ?s1)) \<union> (faq_id ` set fs \<inter> M)"
      and d: "snd ` set (faqs (metadata ?s1)) \<subseteq> snd ` set (faqs (metadata ?t))"
      and e: "\<forall>f \<in> set fs. faq_id f \<in> M \<longrightarrow> f \<in> snd ` set (faqs (metadata ?t))"
      by simp_all
    have c': "faiss_faq_ids (faqs (metadata ?t)) =
        faiss_faq_ids (faqs (metadata s)) \<union> (faq_id ` set (f # fs) \<inter> M)"
      unfolding c i1 ids by simp
    have d': "snd ` set (faqs (metadata s)) \<subseteq> snd ` set (faqs (metadata ?t))"
      using d unfolding r1 by simp
    have ff: "f \<in> snd ` set (faqs (metadata ?t))" using d unfolding r1 by simp
    have e': "\<forall>f' \<in> set (f # fs). faq_id f' \<in> M \<longrightarrow> f' \<in> snd ` set (faqs (metadata ?t))"
      using e ff by simp
    show ?thesis unfolding eq using a b c' d' e' by simp
  qed
qed

text \<open>
  The loop deleting the orphaned ids, from a dense state with unique ids: the indexed ids
  lose the deleted ones, and every record with another id stays.
\<close>

lemma remove_orphaned_inv:
  assumes "dense s" "unique_ids s"
  shows "dense (remove_orphaned now xs s) \<and> unique_ids (remove_orphaned now xs s) \<and>
     faiss_faq_ids (faqs (metadata (remove_orphaned now xs s))) =
       faiss_faq_ids (faqs (metadata s)) - set xs \<and>
     {m \<in> snd ` set (faqs (metadata s)). faq_id m \<notin> set xs}
       \<subseteq> snd ` set (faqs (metadata (remove_orphaned now xs s)))"
  using assms
proof (induction xs arbitrary: s)
  case Nil
  then show ?case by auto
next
  case (Cons x xs)
  let ?s1 = "snd (delete_faq now s x)"
  have d1: "dense ?s1" using Cons.prems(1) by (rule dense_delete)
  have u1: "unique_ids ?s1" using Cons.prems by (rule delete_ids(2))
  have i1: "faiss_faq_ids (faqs (metadata ?s1)) = faiss_faq_ids (faqs (metadata s)) - {x}"
    using Cons.prems by (rule delete_ids(1))
  have r1: "{m \<in> snd ` set (faqs (metadata s)). faq_id m \<noteq> x} \<subseteq> snd ` set (faqs (metadata ?s1))"
    using Cons.prems by (rule delete_ids(3))
  let ?t = "remove_orphaned now xs ?s1"
  from Cons.IH [OF d1 u1] have a: "dense ?t" and b: "unique_ids ?t"
    and c: "faiss_faq_ids (faqs (metadata ?t)) = faiss_faq_ids (faqs (metadata ?s1)) - set xs"
    and d: "{m \<in> snd ` set (faqs (metadata ?s1)). faq_id m \<notin> set xs}
        \<subseteq> snd ` set (faqs (metadata ?t))"
    by simp_all
  have c': "faiss_faq_ids (faqs (metadata ?t)) = faiss_faq_ids (faqs (metadata s)) - set (x # xs)"
    unfolding c i1 by auto
  have d': "{m \<in> snd ` set (faqs (metadata s)). faq_id m \<notin> set (x # xs)}
      \<subseteq> snd ` set (faqs (metadata ?t))"
  proof
    fix m assume "m \<in> {m \<in> snd ` set (faqs (metadata s)). faq_id m \<notin> set (x # xs)}"
    then have m: "m \<in> snd ` set (faqs (metadata s))" "faq_id m \<noteq> x" "faq_id m \<notin> set xs"
      by simp_all
    from m(1,2) r1 have "m \<in> snd ` set (faqs (metadata ?s1))" by blast
    with m(3) d show "m \<in> snd ` set (faqs (metadata ?t))" by blast
  qed
  have eq: "remove_orphaned now (x # xs) s = ?t" by simp
  show ?case unfolding eq using a b c' d' by simp
qed

lemma add_missing_none: "add_missing g now {} fs s = s"
  by (induction fs arbitrary: s) simp_all

lemma iterates_empty: "iterates f \<Longrightarrow> f {} = []"
  unfolding iterates_def by (metis finite.emptyI set_empty)

lemma iterates_set: "iterates f \<Longrightarrow> finite S \<Longrightarrow> set (f S) = S"
  by (simp add: iterates_def)

lemma distinct_singleton: "distinct xs \<Longrightarrow> set xs = {a} \<Longrightarrow> xs = [a]"
proof (cases xs)
  case Nil
  assume "set xs = {a}"
  with Nil show ?thesis by simp
next
  case (Cons y ys)
  assume d: "distinct xs" and s: "set xs = {a}"
  from s Cons have "y = a" by auto
  moreover from s Cons d have "set ys \<subseteq> {a}" "a \<notin> set ys" by auto
  then have "set ys = {}" using subset_singletonD [of "set ys" a] by auto
  ultimately show ?thesis using Cons by simp
qed

lemma iterates_singleton: "iterates f \<Longrightarrow> f {a} = [a]"
  by (rule distinct_singleton) (simp_all add: iterates_def)

text \<open>
  The run of \<^verbatim>\<open>perform_check\<close> on an answer with status 200 and a readable body. The two
  guards \<^verbatim>\<open>if missing_in_faiss\<close> and \<^verbatim>\<open>if orphaned_in_faiss\<close> only skip loops that would
  do nothing.
\<close>

lemma guard_add:
  "(if M \<noteq> {} then add_missing g now M fs s else s) = add_missing g now M fs s"
  by (simp add: add_missing_none)

lemma guard_remove:
  "iterates f \<Longrightarrow>
   (if S \<noteq> {} then remove_orphaned now (f S) t else t) = remove_orphaned now (f S) t"
  by (simp add: iterates_empty)

lemma perform_check_ok:
  assumes "iterates set_iter"
  shows "perform_check set_iter g now (Response 200 (Inr pf)) s =
     (remove_orphaned now (set_iter (faiss_faq_ids (faqs (metadata s)) - set (map faq_id pf)))
        (add_missing g now (set (map faq_id pf) - faiss_faq_ids (faqs (metadata s))) pf s),
      \<lparr>status = (if set (map faq_id pf) - faiss_faq_ids (faqs (metadata s)) \<noteq> {} \<or>
                    faiss_faq_ids (faqs (metadata s)) - set (map faq_id pf) \<noteq> {}
                 then Reindexed else Consistent),
       faqs_total = length pf,
       missing_in_faiss = set_iter (set (map faq_id pf) - faiss_faq_ids (faqs (metadata s))),
       orphaned_in_faiss = set_iter (faiss_faq_ids (faqs (metadata s)) - set (map faq_id pf)),
       error = None\<rparr>)"
  unfolding perform_check_def Let_def guard_add guard_remove [OF assms]
  by (simp add: initial_result_def)

lemma finite_ids: "finite (faiss_faq_ids d)"
  by (simp add: faiss_faq_ids_def)

lemma reconcile_effect:
  assumes it: "iterates set_iter" and d: "dense s" and u: "unique_ids s"
    and p: "distinct (map faq_id pf)"
  shows "faiss_faq_ids (faqs (metadata (fst (perform_check set_iter g now (Response 200 (Inr pf)) s))))
           = set (map faq_id pf)"
    and "\<forall>f \<in> set pf. faq_id f \<notin> faiss_faq_ids (faqs (metadata s)) \<longrightarrow>
           f \<in> snd ` set (faqs (metadata (fst (perform_check set_iter g now (Response 200 (Inr pf)) s))))"
proof -
  let ?ids = "faiss_faq_ids (faqs (metadata s))"
  let ?auth = "set (map faq_id pf)"
  let ?s1 = "add_missing g now (?auth - ?ids) pf s"
  let ?xs = "set_iter (?ids - ?auth)"
  let ?s2 = "remove_orphaned now ?xs ?s1"
  have e: "fst (perform_check set_iter g now (Response 200 (Inr pf)) s) = ?s2"
    by (simp add: perform_check_ok [OF it])
  have xs: "set ?xs = ?ids - ?auth" using it by (rule iterates_set) (simp add: finite_ids)
  have pre: "\<forall>f \<in> set pf. faq_id f \<in> ?auth - ?ids \<longrightarrow> faq_id f \<notin> ?ids" by simp
  note a = add_missing_inv [OF d u p pre, of g now]
  from a have d1: "dense ?s1" and u1: "unique_ids ?s1"
    and i1: "faiss_faq_ids (faqs (metadata ?s1)) = ?ids \<union> (faq_id ` set pf \<inter> (?auth - ?ids))"
    and r1: "\<forall>f \<in> set pf. faq_id f \<in> ?auth - ?ids \<longrightarrow> f \<in> snd ` set (faqs (metadata ?s1))"
    by simp_all
  note b = remove_orphaned_inv [OF d1 u1, of now ?xs]
  from b have i2: "faiss_faq_ids (faqs (metadata ?s2)) = faiss_faq_ids (faqs (metadata ?s1)) - set ?xs"
    and r2: "{m \<in> snd ` set (faqs (metadata ?s1)). faq_id m \<notin> set ?xs}
        \<subseteq> snd ` set (faqs (metadata ?s2))"
    by simp_all
  have "faiss_faq_ids (faqs (metadata ?s2)) = ?auth"
    unfolding i2 i1 xs by auto
  then show "faiss_faq_ids (faqs (metadata (fst (perform_check set_iter g now (Response 200 (Inr pf)) s))))
           = set (map faq_id pf)"
    unfolding e .
  show "\<forall>f \<in> set pf. faq_id f \<notin> faiss_faq_ids (faqs (metadata s)) \<longrightarrow>
           f \<in> snd ` set (faqs (metadata (fst (perform_check set_iter g now (Response 200 (Inr pf)) s))))"
    unfolding e
  proof (intro ballI impI)
    fix f assume f: "f \<in> set pf" "faq_id f \<notin> ?ids"
    then have "faq_id f \<in> ?auth - ?ids" by simp
    with r1 f(1) have m: "f \<in> snd ` set (faqs (metadata ?s1))" by blast
    have "faq_id f \<notin> set ?xs" unfolding xs using f(1) by simp
    with m r2 show "f \<in> snd ` set (faqs (metadata ?s2))" by blast
  qed
qed

lemma second_run:
  assumes it: "iterates set_iter"
    and c: "faiss_faq_ids (faqs (metadata s)) = set (map faq_id pf)"
  shows "perform_check set_iter g now (Response 200 (Inr pf)) s =
     (s, \<lparr>status = Consistent, faqs_total = length pf, missing_in_faiss = [],
          orphaned_in_faiss = [], error = None\<rparr>)"
  unfolding perform_check_ok [OF it] c
  by (simp add: iterates_empty [OF it] add_missing_none)


lemma example_difference: "{1, 2, 3} - {2, 3, 4} = {1::int}" "{2, 3, 4} - {1, 2, 3} = {4::int}"
  by auto

text \<open>
  Claim C6. A reconciliation run on the records \<open>postgres_faqs\<close> of the authoritative
  source (answer 200), for any enumeration order of Python's sets: the report lists as
  missing exactly the authoritative ids that are not indexed and as orphaned exactly the
  indexed ids that are not authoritative, and counts the authoritative records; its status
  is \<open>reindexed\<close> if one of the two sets is not empty and \<open>consistent\<close> otherwise; the state
  after the run is the state after \<^verbatim>\<open>add_or_update_faq\<close> with the authoritative question
  and answer for each record with a missing id, followed by \<^verbatim>\<open>delete_faq\<close> for each
  orphaned id. For authoritative ids \<open>{1, 2, 3}\<close> and indexed ids \<open>{2, 3, 4}\<close> the report is
  missing \<open>[1]\<close>, orphaned \<open>[4]\<close>, status \<open>reindexed\<close>. If the state before the run is dense
  and carries every id once, and the authoritative ids are pairwise different, then after
  the run the indexed ids are exactly the authoritative ids, every authoritative record
  that was missing is in the metadata, and a second run on the same records changes
  nothing and reports \<open>consistent\<close> with both lists empty.
\<close>

theorem reconciliation_run:
  "iterates set_iter \<longrightarrow>
   (let auth = set (map faq_id postgres_faqs);
        indexed = faiss_faq_ids (faqs (metadata s));
        r = snd (perform_check set_iter g now (Response 200 (Inr postgres_faqs)) s);
        s' = fst (perform_check set_iter g now (Response 200 (Inr postgres_faqs)) s)
    in set (missing_in_faiss r) = auth - indexed \<and>
       set (orphaned_in_faiss r) = indexed - auth \<and>
       faqs_total r = length postgres_faqs \<and>
       status r = (if auth - indexed \<noteq> {} \<or> indexed - auth \<noteq> {} then Reindexed else Consistent) \<and>
       s' = remove_orphaned now (orphaned_in_faiss r)
              (add_missing g now (auth - indexed) postgres_faqs s) \<and>
       (auth = {1, 2, 3} \<and> indexed = {2, 3, 4} \<longrightarrow>
          missing_in_faiss r = [1] \<and> orphaned_in_faiss r = [4] \<and> status r = Reindexed) \<and>
       (dense s \<and> unique_ids s \<and> distinct (map faq_id postgres_faqs) \<longrightarrow>
          faiss_faq_ids (faqs (metadata s')) = auth \<and>
          (\<forall>f \<in> set postgres_faqs. faq_id f \<notin> indexed \<longrightarrow> f \<in> snd ` set (faqs (metadata s'))) \<and>
          perform_check set_iter g later (Response 200 (Inr postgres_faqs)) s' =
            (s', \<lparr>status = Consistent, faqs_total = length postgres_faqs,
                   missing_in_faiss = [], orphaned_in_faiss = [], error = None\<rparr>)))"
proof (rule impI)
  assume it: "iterates set_iter"
  let ?auth = "set (map faq_id postgres_faqs)"
  let ?indexed = "faiss_faq_ids (faqs (metadata s))"
  let ?run = "perform_check set_iter g now (Response 200 (Inr postgres_faqs)) s"
  let ?r = "snd ?run" and ?s' = "fst ?run"
  note po = perform_check_ok [OF it, of g now postgres_faqs s]
  have m: "missing_in_faiss ?r = set_iter (?auth - ?indexed)"
    and o: "orphaned_in_faiss ?r = set_iter (?indexed - ?auth)"
    by (simp_all add: po)
  have c1: "set (missing_in_faiss ?r) = ?auth - ?indexed"
    unfolding m using it by (rule iterates_set) simp
  have c2: "set (orphaned_in_faiss ?r) = ?indexed - ?auth"
    unfolding o using it by (rule iterates_set) (simp add: finite_ids)
  have c3: "faqs_total ?r = length postgres_faqs" by (simp add: po)
  have c4: "status ?r =
      (if ?auth - ?indexed \<noteq> {} \<or> ?indexed - ?auth \<noteq> {} then Reindexed else Consistent)"
    by (simp add: po)
  have c5: "?s' = remove_orphaned now (orphaned_in_faiss ?r)
      (add_missing g now (?auth - ?indexed) postgres_faqs s)"
    unfolding o by (simp add: po)
  have c6: "?auth = {1, 2, 3} \<and> ?indexed = {2, 3, 4} \<longrightarrow>
      missing_in_faiss ?r = [1] \<and> orphaned_in_faiss ?r = [4] \<and> status ?r = Reindexed"
  proof (intro impI)
    assume a: "?auth = {1, 2, 3} \<and> ?indexed = {2, 3, 4}"
    then have d1: "?auth - ?indexed = {1}" and d2: "?indexed - ?auth = {4}"
      using example_difference by simp_all
    show "missing_in_faiss ?r = [1] \<and> orphaned_in_faiss ?r = [4] \<and> status ?r = Reindexed"
      unfolding m o c4 d1 d2 by (simp add: iterates_singleton [OF it])
  qed
  have c7: "dense s \<and> unique_ids s \<and> distinct (map faq_id postgres_faqs) \<longrightarrow>
      faiss_faq_ids (faqs (metadata ?s')) = ?auth \<and>
      (\<forall>f \<in> set postgres_faqs. faq_id f \<notin> ?indexed \<longrightarrow> f \<in> snd ` set (faqs (metadata ?s'))) \<and>
      perform_check set_iter g later (Response 200 (Inr postgres_faqs)) ?s' =
        (?s', \<lparr>status = Consistent, faqs_total = length postgres_faqs,
                missing_in_faiss = [], orphaned_in_faiss = [], error = None\<rparr>)"
  proof (intro impI)
    assume a: "dense s \<and> unique_ids s \<and> distinct (map faq_id postgres_faqs)"
    then have d: "dense s" and u: "unique_ids s" and p: "distinct (map faq_id postgres_faqs)"
      by simp_all
    have e1: "faiss_faq_ids (faqs (metadata ?s')) = ?auth"
      using it d u p by (rule reconcile_effect(1))
    have e2: "\<forall>f \<in> set postgres_faqs. faq_id f \<notin> ?indexed \<longrightarrow>
        f \<in> snd ` set (faqs (metadata ?s'))"
      using it d u p by (rule reconcile_effect(2))
    have e3: "perform_check set_iter g later (Response 200 (Inr postgres_faqs)) ?s' =
        (?s', \<lparr>status = Consistent, faqs_total = length postgres_faqs,
                missing_in_faiss = [], orphaned_in_faiss = [], error = None\<rparr>)"
      using it e1 by (rule second_run)
    from e1 e2 e3 show "faiss_faq_ids (faqs (metadata ?s')) = ?auth \<and>
      (\<forall>f \<in> set postgres_faqs. faq_id f \<notin> ?indexed \<longrightarrow> f \<in> snd ` set (faqs (metadata ?s'))) \<and>
      perform_check set_iter g later (Response 200 (Inr postgres_faqs)) ?s' =
        (?s', \<lparr>status = Consistent, faqs_total = length postgres_faqs,
                missing_in_faiss = [], orphaned_in_faiss = [], error = None\<rparr>)"
      by (intro conjI)
  qed
  show "let auth = set (map faq_id postgres_faqs);
        indexed = faiss_faq_ids (faqs (metadata s));
        r = snd (perform_check set_iter g now (Response 200 (Inr postgres_faqs)) s);
        s' = fst (perform_check set_iter g now (Response 200 (Inr postgres_faqs)) s)
    in set (missing_in_faiss r) = auth - indexed \<and>
       set (orphaned_in_faiss r) = indexed - auth \<and>
       faqs_total r = length postgres_faqs \<and>
       status r = (if auth - indexed \<noteq> {} \<or> indexed - auth \<noteq> {} then Reindexed else Consistent) \<and>
       s' = remove_orphaned now (orphaned_in_faiss r)
              (add_missing g now (auth - indexed) postgres_faqs s) \<and>
       (auth = {1, 2, 3} \<and> indexed = {2, 3, 4} \<longrightarrow>
          missing_in_faiss r = [1] \<and> orphaned_in_faiss r = [4] \<and> status r = Reindexed) \<and>
       (dense s \<and> unique_ids s \<and> distinct (map faq_id postgres_faqs) \<longrightarrow>
          faiss_faq_ids (faqs (metadata s')) = auth \<and>
          (\<forall>f \<in> set postgres_faqs. faq_id f \<notin> indexed \<longrightarrow> f \<in> snd ` set (faqs (metadata s'))) \<and>
          perform_check set_iter g later (Response 200 (Inr postgres_faqs)) s' =
            (s', \<lparr>status = Consistent, faqs_total = length postgres_faqs,
                   missing_in_faiss = [], orphaned_in_faiss = [], error = None\<rparr>))"
    unfolding Let_def
    apply (intro conjI)
          apply (rule c1)
         apply (rule c2)
        apply (rule c3)
       apply (rule c4)
      apply (rule c5)
     apply (rule c6)
    apply (rule c7)
    done
qed

text \<open>
  The example run: the state with the ids 2, 3, 4 against the authoritative records 1, 2, 3,
  sets enumerated in increasing order. The first run reports missing \<open>[1]\<close>, orphaned \<open>[4]\<close>
  and \<open>reindexed\<close>, and leaves the ids 2, 3, 1 at the positions 0, 1, 2; the second run
  reports \<open>consistent\<close>.
\<close>

theorem reconciliation_run_witness:
  "iterates sorted_list_of_set \<and> dense state_2_3_4 \<and> unique_ids state_2_3_4 \<and>
   set (map faq_id authoritative_1_2_3) = {1, 2, 3} \<and>
   faiss_faq_ids (faqs (metadata state_2_3_4)) = {2, 3, 4} \<and>
   snd (perform_check sorted_list_of_set (\<lambda>q. q) ''day 2''
          (Response 200 (Inr authoritative_1_2_3)) state_2_3_4) =
     \<lparr>status = Reindexed, faqs_total = 3, missing_in_faiss = [1], orphaned_in_faiss = [4],
      error = None\<rparr> \<and>
   faqs (metadata (fst (perform_check sorted_list_of_set (\<lambda>q. q) ''day 2''
          (Response 200 (Inr authoritative_1_2_3)) state_2_3_4))) =
     [(0, example_faq 2 ''two''), (1, example_faq 3 ''three''), (2, example_faq 1 ''one'')] \<and>
   index (fst (perform_check sorted_list_of_set (\<lambda>q. q) ''day 2''
          (Response 200 (Inr authoritative_1_2_3)) state_2_3_4)) = [''two'', ''three'', ''one''] \<and>
   snd (perform_check sorted_list_of_set (\<lambda>q. q) ''day 3'' (Response 200 (Inr authoritative_1_2_3))
          (fst (perform_check sorted_list_of_set (\<lambda>q. q) ''day 2''
             (Response 200 (Inr authoritative_1_2_3)) state_2_3_4))) =
     \<lparr>status = Consistent, faqs_total = 3, missing_in_faiss = [], orphaned_in_faiss = [],
      error = None\<rparr>"
proof -
  let ?run = "perform_check sorted_list_of_set (\<lambda>q. q) ''day 2''
      (Response 200 (Inr authoritative_1_2_3)) state_2_3_4"
  have it: "iterates (sorted_list_of_set :: int set \<Rightarrow> int list)" by (simp add: iterates_def)
  have d: "dense state_2_3_4" by (auto simp: dense_def state_2_3_4_def ntotal_def Let_def)
  have u: "unique_ids state_2_3_4"
    by (simp add: unique_ids_def state_2_3_4_def example_faq_def Let_def)
  have p: "distinct (map faq_id authoritative_1_2_3)"
    by (simp add: authoritative_1_2_3_def example_faq_def)
  have au: "set (map faq_id authoritative_1_2_3) = {1, 2, 3}"
    by (simp add: authoritative_1_2_3_def example_faq_def)
  have ix: "faiss_faq_ids (faqs (metadata state_2_3_4)) = {2, 3, 4}"
    by (simp add: faiss_faq_ids_def state_2_3_4_def example_faq_def Let_def)
  note t = reconciliation_run [where set_iter = sorted_list_of_set and g = "\<lambda>q. q"
      and now = "''day 2''" and later = "''day 3''" and postgres_faqs = authoritative_1_2_3
      and s = state_2_3_4, THEN mp, OF it, unfolded Let_def]
  have n: "faqs_total (snd ?run) = 3"
    using t by (simp add: authoritative_1_2_3_def)
  have r: "missing_in_faiss (snd ?run) = [1] \<and> orphaned_in_faiss (snd ?run) = [4] \<and>
      status (snd ?run) = Reindexed"
    using t au ix by blast
  have e: "error (snd ?run) = None"
    by (simp add: perform_check_ok [OF it])
  have rep: "snd ?run = \<lparr>status = Reindexed, faqs_total = 3, missing_in_faiss = [1],
      orphaned_in_faiss = [4], error = None\<rparr>"
    using n r e by (cases "snd ?run") simp
  have st: "fst ?run = remove_orphaned ''day 2'' [4]
      (add_missing (\<lambda>q. q) ''day 2'' {1} authoritative_1_2_3 state_2_3_4)"
    using t r au ix example_difference by simp
  have second: "perform_check sorted_list_of_set (\<lambda>q. q) ''day 3''
      (Response 200 (Inr authoritative_1_2_3)) (fst ?run) =
      (fst ?run, \<lparr>status = Consistent, faqs_total = length authoritative_1_2_3,
         missing_in_faiss = [], orphaned_in_faiss = [], error = None\<rparr>)"
    using t d u p by blast
  have ev: "remove_orphaned ''day 2'' [4]
      (add_missing (\<lambda>q. q) ''day 2'' {1} authoritative_1_2_3 state_2_3_4) =
      (let md = \<lparr>faqs = [(0, example_faq 2 ''two''), (1, example_faq 3 ''three''),
                         (2, example_faq 1 ''one'')],
                 last_updated = Some ''day 2'', consistency_check = None\<rparr>;
           ix = [''two'', ''three'', ''one'']
       in \<lparr>index = ix, metadata = md, disk = (ix, md)\<rparr>)"
    by (simp add: authoritative_1_2_3_def state_2_3_4_def example_faq_def add_or_update_faq_def
        delete_faq_def save_index_def remove_ids_def ntotal_def index_add_def Let_def)
  show ?thesis
    unfolding second rep
    unfolding st ev
    using it d u au ix by (simp add: Let_def authoritative_1_2_3_def example_faq_def)
qed

end
